theory Spec2Isabelle
  imports Complex_Main "HOL-Library.Log_Nat"
begin

section \<open>JavaScript numbers\<close>

text \<open>
  The program of \<^verbatim>\<open>src/accounting/index.js\<close> computes with JavaScript Numbers, which are
  IEEE 754 binary64 values. A finite Number is modelled by the rational it denotes;
  every arithmetic result is rounded to the nearest binary64 value (ties to even) by
  \<open>rnd\<close>, overflowing to an infinity. The two zeros are one value \<open>Fin 0\<close>: the program
  only adds, subtracts, compares, multiplies and divides by the literal 100, rounds and
  prints, and none of these tells \<open>-0\<close> from \<open>+0\<close>.
\<close>

datatype jsnum = NaN | PInf | NInf | Fin rat

text \<open>\<open>binade q\<close> is the integer \<open>e\<close> with \<open>2\<^sup>e \<le> \<bar>q\<bar> < 2\<^sup>e\<^sup>+\<^sup>1\<close>, for \<open>q \<noteq> 0\<close>.\<close>

definition binade :: "rat \<Rightarrow> int" where
  "binade q = (let (a, b) = quotient_of \<bar>q\<bar>;
                   d = bitlen a - bitlen b
               in if 2 powi d \<le> \<bar>q\<bar> then d else d - 1)"

definition round_half_even :: "rat \<Rightarrow> int" where
  "round_half_even t = (let f = \<lfloor>t\<rfloor>; r = t - of_int f
     in if r < 1 / 2 then f else if 1 / 2 < r then f + 1 else if even f then f else f + 1)"

text \<open>
  Binary64 has 53 significant bits; the smallest exponent of a normal number is -1022,
  below it the spacing stays \<open>2\<^sup>-\<^sup>1\<^sup>0\<^sup>7\<^sup>4\<close> (subnormal numbers). \<open>ulp q\<close> is the spacing of the
  binary64 values around \<open>q\<close>, and \<open>rnd_val q\<close> the multiple of it nearest to \<open>q\<close>, the even
  one at a tie. A rounded result of magnitude \<open>2\<^sup>1\<^sup>0\<^sup>2\<^sup>4\<close> or more, that is of exponent 1024
  or more, is an infinity.
\<close>

definition ulp :: "rat \<Rightarrow> rat" where
  "ulp q = 2 powi (max (binade q) (- 1022) - 52)"

definition rnd_val :: "rat \<Rightarrow> rat" where
  "rnd_val q = of_int (round_half_even (q / ulp q)) * ulp q"

definition rnd :: "rat \<Rightarrow> jsnum" where
  "rnd q = (if q = 0 then Fin 0 else
     let r = rnd_val q
     in if 1024 \<le> binade r then (if 0 < q then PInf else NInf) else Fin r)"

definition js_isNaN :: "jsnum \<Rightarrow> bool" where
  "js_isNaN x = (x = NaN)"

text \<open>The relational operators: a comparison with \<open>NaN\<close> is false.\<close>

fun js_lt :: "jsnum \<Rightarrow> jsnum \<Rightarrow> bool" where
  "js_lt NaN y = False"
| "js_lt x NaN = False"
| "js_lt PInf y = False"
| "js_lt NInf y = (y \<noteq> NInf)"
| "js_lt (Fin a) PInf = True"
| "js_lt (Fin a) NInf = False"
| "js_lt (Fin a) (Fin b) = (a < b)"

definition js_gt :: "jsnum \<Rightarrow> jsnum \<Rightarrow> bool" where
  "js_gt x y = js_lt y x"

definition js_ge :: "jsnum \<Rightarrow> jsnum \<Rightarrow> bool" where
  "js_ge x y = (\<not> js_isNaN x \<and> \<not> js_isNaN y \<and> \<not> js_lt x y)"

fun js_add :: "jsnum \<Rightarrow> jsnum \<Rightarrow> jsnum" where
  "js_add NaN y = NaN"
| "js_add x NaN = NaN"
| "js_add PInf y = (if y = NInf then NaN else PInf)"
| "js_add NInf y = (if y = PInf then NaN else NInf)"
| "js_add (Fin a) PInf = PInf"
| "js_add (Fin a) NInf = NInf"
| "js_add (Fin a) (Fin b) = rnd (a + b)"

fun js_sub :: "jsnum \<Rightarrow> jsnum \<Rightarrow> jsnum" where
  "js_sub NaN y = NaN"
| "js_sub x NaN = NaN"
| "js_sub PInf y = (if y = PInf then NaN else PInf)"
| "js_sub NInf y = (if y = NInf then NaN else NInf)"
| "js_sub (Fin a) PInf = NInf"
| "js_sub (Fin a) NInf = PInf"
| "js_sub (Fin a) (Fin b) = rnd (a - b)"

fun js_mul :: "jsnum \<Rightarrow> jsnum \<Rightarrow> jsnum" where
  "js_mul NaN y = NaN"
| "js_mul x NaN = NaN"
| "js_mul (Fin a) (Fin b) = rnd (a * b)"
| "js_mul x y =
     (if x = Fin 0 \<or> y = Fin 0 then NaN
      else if js_lt x (Fin 0) = js_lt y (Fin 0) then PInf else NInf)"

text \<open>
  The divisor of the program is the literal 100. A zero divisor is read as \<open>+0\<close>
  (the sign of a zero is not kept).
\<close>

fun js_div :: "jsnum \<Rightarrow> jsnum \<Rightarrow> jsnum" where
  "js_div NaN y = NaN"
| "js_div x NaN = NaN"
| "js_div (Fin a) (Fin b) =
     (if b = 0 then (if a = 0 then NaN else if 0 < a then PInf else NInf)
      else rnd (a / b))"
| "js_div (Fin a) y = Fin 0"
| "js_div x (Fin b) = (if js_lt x (Fin 0) = (b < 0) then PInf else NInf)"
| "js_div x y = NaN"

text \<open>
  \<^verbatim>\<open>Math.round\<close>: the integer closest to the argument, the larger one at a tie. On a
  binary64 argument the result is a binary64 value, so no rounding follows.
\<close>

fun Math_round :: "jsnum \<Rightarrow> jsnum" where
  "Math_round (Fin q) = Fin (of_int \<lfloor>q + 1 / 2\<rfloor>)"
| "Math_round x = x"

section \<open>Strings: \<^verbatim>\<open>parseFloat\<close>, \<^verbatim>\<open>toFixed\<close>, \<^verbatim>\<open>padStart\<close>\<close>

text \<open>
  A string is its UTF-8 bytes. \<^verbatim>\<open>parseFloat\<close> skips leading white space (the
  \<^verbatim>\<open>WhiteSpace\<close> and \<^verbatim>\<open>LineTerminator\<close> code points, here in their UTF-8 encodings), then
  reads the longest prefix that is a \<^verbatim>\<open>StrDecimalLiteral\<close> and returns its value rounded
  to binary64, or \<open>NaN\<close> when there is no such prefix. The value is rounded to the nearest
  binary64 value, as the engines do; for a literal of more than 20 significant digits
  the language also allows the value of its first 20.
\<close>

definition is_ws3 :: "int \<Rightarrow> int \<Rightarrow> int \<Rightarrow> bool" where
  "is_ws3 b0 b1 b2 =
     (b0 = 0xE1 \<and> b1 = 0x9A \<and> b2 = 0x80
      \<or> b0 = 0xE2 \<and> b1 = 0x80 \<and> (0x80 \<le> b2 \<and> b2 \<le> 0x8A \<or> b2 = 0xA8 \<or> b2 = 0xA9 \<or> b2 = 0xAF)
      \<or> b0 = 0xE2 \<and> b1 = 0x81 \<and> b2 = 0x9F
      \<or> b0 = 0xE3 \<and> b1 = 0x80 \<and> b2 = 0x80
      \<or> b0 = 0xEF \<and> b1 = 0xBB \<and> b2 = 0xBF)"

text \<open>The number of bytes of the white space character at the head of the string, or 0.\<close>

definition ws_len :: "string \<Rightarrow> nat" where
  "ws_len s =
     (case map of_char (take 3 s) of
        [] \<Rightarrow> 0
      | b0 # r \<Rightarrow>
          if b0 = 9 \<or> b0 = 10 \<or> b0 = 11 \<or> b0 = 12 \<or> b0 = 13 \<or> b0 = (32 :: int) then 1
          else (case r of
                  [] \<Rightarrow> 0
                | b1 # r' \<Rightarrow>
                    if b0 = 0xC2 \<and> b1 = 0xA0 then 2
                    else (case r' of [] \<Rightarrow> 0 | b2 # _ \<Rightarrow> if is_ws3 b0 b1 b2 then 3 else 0)))"

function trimStart :: "string \<Rightarrow> string" where
  "trimStart s = (if ws_len s = 0 then s else trimStart (drop (ws_len s) s))"
  by pat_completeness auto
termination
proof (relation "measure length")
  fix s :: string
  assume "ws_len s \<noteq> 0"
  then have "s \<noteq> []"
    by (auto simp: ws_len_def)
  with \<open>ws_len s \<noteq> 0\<close> show "(drop (ws_len s) s, s) \<in> measure length"
    by simp
qed simp

declare trimStart.simps [simp del]

definition is_digit :: "char \<Rightarrow> bool" where
  "is_digit c = (c \<in> set ''0123456789'')"

definition digit_val :: "char \<Rightarrow> int" where
  "digit_val c = of_char c - 48"

definition digits_val :: "string \<Rightarrow> int" where
  "digits_val ds = foldl (\<lambda>a c. 10 * a + digit_val c) 0 ds"

definition exp_digits :: "string \<Rightarrow> int \<Rightarrow> int" where
  "exp_digits s sg =
     (let ds = takeWhile is_digit s in if ds = [] then 0 else sg * digits_val ds)"

text \<open>The value of the \<^verbatim>\<open>ExponentPart\<close> at the head of the string, 0 when there is none.\<close>

definition parse_exponent :: "string \<Rightarrow> int" where
  "parse_exponent s =
     (case s of
        [] \<Rightarrow> 0
      | c # r \<Rightarrow>
          if c = CHR ''e'' \<or> c = CHR ''E'' then
            (case r of
               [] \<Rightarrow> 0
             | d # r' \<Rightarrow>
                 if d = CHR ''+'' then exp_digits r' 1
                 else if d = CHR ''-'' then exp_digits r' (- 1)
                 else exp_digits r 1)
          else 0)"

text \<open>
  The mathematical value of the longest prefix that is a \<^verbatim>\<open>StrUnsignedDecimalLiteral\<close>
  other than \<^verbatim>\<open>Infinity\<close>: digits with an optional fraction, or a point followed by
  digits, then an optional exponent.
\<close>

definition parse_unsigned :: "string \<Rightarrow> rat option" where
  "parse_unsigned s =
     (let ip = takeWhile is_digit s; r1 = dropWhile is_digit s in
      if r1 \<noteq> [] \<and> hd r1 = CHR ''.'' then
        (let fp = takeWhile is_digit (tl r1); r3 = dropWhile is_digit (tl r1) in
         if ip = [] \<and> fp = [] then None
         else Some ((of_int (digits_val ip) + of_int (digits_val fp) / 10 ^ length fp)
                      * 10 powi parse_exponent r3))
      else if ip = [] then None
      else Some (of_int (digits_val ip) * 10 powi parse_exponent r1))"

definition parseFloat :: "string \<Rightarrow> jsnum" where
  "parseFloat s =
     (let t = trimStart s;
          neg = (t \<noteq> [] \<and> hd t = CHR ''-'');
          u = (if t \<noteq> [] \<and> (hd t = CHR ''+'' \<or> hd t = CHR ''-'') then tl t else t)
      in if take 8 u = ''Infinity'' then (if neg then NInf else PInf)
         else (case parse_unsigned u of
                 None \<Rightarrow> NaN
               | Some v \<Rightarrow> rnd (if neg then - v else v)))"

definition digit_char :: "int \<Rightarrow> char" where
  "digit_char d = ''0123456789'' ! nat d"

text \<open>The decimal digits of a natural number, most significant first.\<close>

function digits10 :: "int \<Rightarrow> string" where
  "digits10 n =
     (if n < 10 then [digit_char n]
      else digits10 (n div 10) @ [digit_char (n mod 10)])"
  by pat_completeness auto
termination
  by (relation "measure nat") auto

declare digits10.simps [simp del]

text \<open>
  \<^verbatim>\<open>x.toFixed(2)\<close>. For a finite \<open>x\<close> of magnitude below \<open>10\<^sup>2\<^sup>1\<close> the digits are those of
  the integer \<open>n\<close> for which \<open>n / 100 - x\<close> is closest to zero, the larger \<open>n\<close> at a tie.
  At \<open>10\<^sup>2\<^sup>1\<close> and beyond the result is \<^verbatim>\<open>Number::toString\<close> of the magnitude, which
  is the parameter \<open>ntos\<close> here.
\<close>

definition toFixed2 :: "(rat \<Rightarrow> string) \<Rightarrow> jsnum \<Rightarrow> string" where
  "toFixed2 ntos x =
     (case x of
        NaN \<Rightarrow> ''NaN''
      | PInf \<Rightarrow> ''Infinity''
      | NInf \<Rightarrow> ''-Infinity''
      | Fin q \<Rightarrow>
          (let s = (if q < 0 then ''-'' else '''');
               a = \<bar>q\<bar>
           in if 10 ^ 21 \<le> a then s @ ntos a
              else
                (let n = \<lfloor>a * 100 + 1 / 2\<rfloor>;
                     m = digits10 n;
                     m' = replicate (3 - length m) CHR ''0'' @ m;
                     k = length m'
                 in s @ take (k - 2) m' @ ''.'' @ drop (k - 2) m')))"

text \<open>
  The evaluations of this theory stay below \<open>10\<^sup>2\<^sup>1\<close>; they take \<open>no_toString\<close> for the
  parameter.
\<close>

definition no_toString :: "rat \<Rightarrow> string" where
  "no_toString q = []"

definition padStart :: "nat \<Rightarrow> char \<Rightarrow> string \<Rightarrow> string" where
  "padStart n c s = replicate (n - length s) c @ s"

section \<open>The data layer: \<^verbatim>\<open>DataManager\<close>\<close>

record DataManager =
  storageBalance :: jsnum

text \<open>The numeric literals of the source.\<close>

definition lit_1000 :: jsnum where
  "lit_1000 = rnd 1000"

definition lit_100 :: jsnum where
  "lit_100 = rnd 100"

definition lit_max :: jsnum where
  "lit_max = rnd (99999999 / 100)"

definition new_DataManager :: DataManager where
  "new_DataManager = \<lparr>storageBalance = lit_1000\<rparr>"

definition read :: "DataManager \<Rightarrow> jsnum" where
  "read dm = storageBalance dm"

text \<open>
  \<^verbatim>\<open>DataManager.write\<close> is \<open>write_balance\<close>. Its argument is any JavaScript value;
  \<open>NotNumber\<close> stands for the values whose \<^verbatim>\<open>typeof\<close> is not \<^verbatim>\<open>'number'\<close>. A \<^verbatim>\<open>throw\<close> is
  \<open>Inl\<close> of the error's message, and leaves the object as it was.
\<close>

datatype jsval = Num jsnum | NotNumber

fun write_balance :: "jsval \<Rightarrow> DataManager \<Rightarrow> string + DataManager" where
  "write_balance NotNumber dm = Inl ''Invalid balance value''"
| "write_balance (Num balance) dm =
     (if js_lt balance (Fin 0) \<or> js_gt balance lit_max then Inl ''Invalid balance value''
      else Inr (dm\<lparr>storageBalance := js_div (Math_round (js_mul balance lit_100)) lit_100\<rparr>))"

definition getFormattedBalance :: "(rat \<Rightarrow> string) \<Rightarrow> DataManager \<Rightarrow> string" where
  "getFormattedBalance ntos dm = padStart 9 CHR ''0'' (toFixed2 ntos (storageBalance dm))"

section \<open>The operations layer: \<^verbatim>\<open>AccountOperations\<close>\<close>

text \<open>
  An operation prints one line on the console, or ends with an uncaught exception.
  It gets the string that its \<^verbatim>\<open>prompt\<close> returns, and returns the data manager it leaves.
\<close>

datatype outcome = Logged string | Threw string

definition viewBalance :: "(rat \<Rightarrow> string) \<Rightarrow> DataManager \<Rightarrow> outcome \<times> DataManager" where
  "viewBalance ntos dm =
     (let balance = read dm
      in (Logged (''Current balance: '' @ padStart 9 CHR ''0'' (toFixed2 ntos balance)), dm))"

definition creditAccount ::
  "(rat \<Rightarrow> string) \<Rightarrow> string \<Rightarrow> DataManager \<Rightarrow> outcome \<times> DataManager" where
  "creditAccount ntos amountStr dm =
     (let amount = parseFloat amountStr in
      if js_isNaN amount \<or> js_lt amount (Fin 0)
      then (Logged ''Invalid amount. Please enter a positive number.'', dm)
      else
        (let finalBalance = js_add (read dm) amount in
         case write_balance (Num finalBalance) dm of
           Inl e \<Rightarrow> (Threw e, dm)
         | Inr dm' \<Rightarrow>
             (Logged (''Amount credited. New balance: ''
                        @ padStart 9 CHR ''0'' (toFixed2 ntos finalBalance)), dm')))"

definition debitAccount ::
  "(rat \<Rightarrow> string) \<Rightarrow> string \<Rightarrow> DataManager \<Rightarrow> outcome \<times> DataManager" where
  "debitAccount ntos amountStr dm =
     (let amount = parseFloat amountStr in
      if js_isNaN amount \<or> js_lt amount (Fin 0)
      then (Logged ''Invalid amount. Please enter a positive number.'', dm)
      else
        (let finalBalance = read dm in
         if js_ge finalBalance amount then
           (let finalBalance' = js_sub finalBalance amount in
            case write_balance (Num finalBalance') dm of
              Inl e \<Rightarrow> (Threw e, dm)
            | Inr dm' \<Rightarrow>
                (Logged (''Amount debited. New balance: ''
                           @ padStart 9 CHR ''0'' (toFixed2 ntos finalBalance')), dm'))
         else (Logged ''Insufficient funds for this debit.'', dm)))"

section \<open>The main program: \<^verbatim>\<open>MainProgram\<close>\<close>

definition displayMenu :: "string list" where
  "displayMenu =
     [''--------------------------------'',
      ''Account Management System'',
      ''1. View Balance'',
      ''2. Credit Account'',
      ''3. Debit Account'',
      ''4. Exit'',
      ''--------------------------------'']"

text \<open>
  \<^verbatim>\<open>run\<close> reads the strings that \<^verbatim>\<open>prompt\<close> returns, one after the other, from a list.
  The loop ends when the choice is \<^verbatim>\<open>'4'\<close>, or by an exception of an operation, which
  \<^verbatim>\<open>run\<close> does not catch; when the list is used up the loop is waiting at a prompt. The
  result holds how the loop ended, the lines written with \<^verbatim>\<open>console.log\<close>, and the data
  manager.
\<close>

datatype run_end = Exited | Uncaught string | AwaitingInput

fun run ::
  "(rat \<Rightarrow> string) \<Rightarrow> string list \<Rightarrow> DataManager \<Rightarrow> string list
     \<Rightarrow> run_end \<times> string list \<times> DataManager" where
  "run ntos [] dm out = (AwaitingInput, out @ displayMenu, dm)"
| "run ntos (choice # inputs) dm out =
     (let out' = out @ displayMenu in
      if choice = ''1'' then
        (case viewBalance ntos dm of
           (Logged l, dm') \<Rightarrow> run ntos inputs dm' (out' @ [l])
         | (Threw e, dm') \<Rightarrow> (Uncaught e, out', dm'))
      else if choice = ''2'' then
        (case inputs of
           [] \<Rightarrow> (AwaitingInput, out', dm)
         | amountStr # inputs' \<Rightarrow>
             (case creditAccount ntos amountStr dm of
                (Logged l, dm') \<Rightarrow> run ntos inputs' dm' (out' @ [l])
              | (Threw e, dm') \<Rightarrow> (Uncaught e, out', dm')))
      else if choice = ''3'' then
        (case inputs of
           [] \<Rightarrow> (AwaitingInput, out', dm)
         | amountStr # inputs' \<Rightarrow>
             (case debitAccount ntos amountStr dm of
                (Logged l, dm') \<Rightarrow> run ntos inputs' dm' (out' @ [l])
              | (Threw e, dm') \<Rightarrow> (Uncaught e, out', dm')))
      else if choice = ''4'' then (Exited, out' @ [''Exiting the program. Goodbye!''], dm)
      else run ntos inputs dm (out' @ [''Invalid choice, please select 1-4.'']))"

section \<open>The notions of the specification\<close>

text \<open>The range \<open>[0, 999999.99]\<close> of the balance.\<close>

definition in_bounds :: "jsnum \<Rightarrow> bool" where
  "in_bounds b = (case b of Fin q \<Rightarrow> 0 \<le> q \<and> q \<le> 99999999 / 100 | _ \<Rightarrow> False)"

text \<open>
  An amount with two fractional digits is a number of hundredths; as a Number it is the
  binary64 value nearest to it, \<open>cents n\<close> for \<open>n\<close> hundredths. \<open>two_decimals b\<close> says that
  \<open>b\<close> is such a value, of an amount in \<open>[0, 999999.99]\<close>.
\<close>

definition cents :: "int \<Rightarrow> rat" where
  "cents n = rnd_val (of_int n / 100)"

definition two_decimals :: "jsnum \<Rightarrow> bool" where
  "two_decimals b =
     (case b of
        Fin q \<Rightarrow> (let n = \<lfloor>q * 100 + 1 / 2\<rfloor> in 0 \<le> n \<and> n \<le> 99999999 \<and> q = cents n)
      | _ \<Rightarrow> False)"

text \<open>
  What follows a number and is no part of one. \<open>starts_exponent t\<close> says that \<open>t\<close> begins
  with an exponent part: \<^verbatim>\<open>e\<close> or \<^verbatim>\<open>E\<close>, an optional sign, a digit. A tail of non-numeric
  characters is a string that is not empty, whose first character is not a digit, a
  point or a sign, and that does not begin with an exponent part. Its first character
  can be white space, a letter, also \<^verbatim>\<open>e\<close> as in \<^verbatim>\<open>euros\<close>, or any byte that is not ASCII.
\<close>

definition starts_exponent :: "string \<Rightarrow> bool" where
  "starts_exponent t =
     (case t of
        c # d # r \<Rightarrow>
          (c = CHR ''e'' \<or> c = CHR ''E'')
          \<and> (is_digit d \<or> ((d = CHR ''+'' \<or> d = CHR ''-'') \<and> r \<noteq> [] \<and> is_digit (hd r)))
      | _ \<Rightarrow> False)"

definition non_numeric_tail :: "string \<Rightarrow> bool" where
  "non_numeric_tail t =
     (t \<noteq> [] \<and> \<not> is_digit (hd t) \<and> hd t \<noteq> CHR ''.'' \<and> hd t \<noteq> CHR ''+'' \<and> hd t \<noteq> CHR ''-''
      \<and> \<not> starts_exponent t)"

text \<open>
  A decimal literal as the grammar of the language has it (\<^verbatim>\<open>StrDecimalLiteral\<close> without
  \<^verbatim>\<open>Infinity\<close>): an optional sign, the digits before the point, the point with the
  digits after it when there is one, and an optional exponent part, which is the letter,
  its sign and its digits. There is a digit before or just after the point.
  \<open>literal_text\<close> is the string of the literal, \<open>literal_value\<close> the rational number that
  it denotes.
\<close>

record decimal_literal =
  sign_text :: string
  int_digits :: string
  frac_digits :: "string option"
  exp_part :: "(char \<times> string \<times> string) option"

definition literal_ok :: "decimal_literal \<Rightarrow> bool" where
  "literal_ok l =
     ((sign_text l = [] \<or> sign_text l = ''+'' \<or> sign_text l = ''-'')
      \<and> list_all is_digit (int_digits l)
      \<and> (case frac_digits l of
            None \<Rightarrow> int_digits l \<noteq> []
          | Some fp \<Rightarrow> list_all is_digit fp \<and> (int_digits l \<noteq> [] \<or> fp \<noteq> []))
      \<and> (case exp_part l of
            None \<Rightarrow> True
          | Some (e, sg, ed) \<Rightarrow>
              (e = CHR ''e'' \<or> e = CHR ''E'') \<and> (sg = [] \<or> sg = ''+'' \<or> sg = ''-'')
              \<and> ed \<noteq> [] \<and> list_all is_digit ed))"

definition literal_text :: "decimal_literal \<Rightarrow> string" where
  "literal_text l =
     sign_text l @ int_digits l
     @ (case frac_digits l of None \<Rightarrow> [] | Some fp \<Rightarrow> CHR ''.'' # fp)
     @ (case exp_part l of None \<Rightarrow> [] | Some (e, sg, ed) \<Rightarrow> e # sg @ ed)"

definition literal_value :: "decimal_literal \<Rightarrow> rat" where
  "literal_value l =
     (if sign_text l = ''-'' then - 1 else 1)
     * ((of_int (digits_val (int_digits l))
         + (case frac_digits l of None \<Rightarrow> 0 | Some fp \<Rightarrow> of_int (digits_val fp) / 10 ^ length fp))
        * 10 powi (case exp_part l of
                     None \<Rightarrow> 0
                   | Some (e, sg, ed) \<Rightarrow> if sg = ''-'' then - digits_val ed else digits_val ed))"

text \<open>
  A sequence of credit and debit operations, each with the string typed at its prompt,
  and the data manager that they leave. The caller goes on after an operation that threw.
\<close>

datatype operation = Credit string | Debit string

fun perform :: "(rat \<Rightarrow> string) \<Rightarrow> operation \<Rightarrow> DataManager \<Rightarrow> outcome \<times> DataManager" where
  "perform ntos (Credit amountStr) dm = creditAccount ntos amountStr dm"
| "perform ntos (Debit amountStr) dm = debitAccount ntos amountStr dm"

definition state_after :: "(rat \<Rightarrow> string) \<Rightarrow> operation list \<Rightarrow> DataManager \<Rightarrow> DataManager" where
  "state_after ntos xs dm = foldl (\<lambda>d x. snd (perform ntos x d)) dm xs"

section \<open>Rounding to binary64\<close>

lemma bitlen_pos: "0 < a \<Longrightarrow> 1 \<le> bitlen a"
  using bitlen_eq_zero_iff [of a] bitlen_nonneg [of a] by linarith

lemma bitlen_powi_bounds:
  assumes "0 < a"
  shows "(2::rat) powi (bitlen a - 1) \<le> of_int a" and "(of_int a :: rat) < 2 powi bitlen a"
proof -
  have b: "1 \<le> bitlen a" using assms by (rule bitlen_pos)
  have "2 ^ nat (bitlen a - 1) \<le> a" and "a < 2 ^ nat (bitlen a)"
    using bitlen_bounds [OF assms] by auto
  then have "(of_int (2 ^ nat (bitlen a - 1)) :: rat) \<le> of_int a"
    and "(of_int a :: rat) < of_int (2 ^ nat (bitlen a))"
    by (simp_all only: of_int_le_iff of_int_less_iff)
  then show "(2::rat) powi (bitlen a - 1) \<le> of_int a" and "(of_int a :: rat) < 2 powi bitlen a"
    using b by (simp_all add: power_int_nonneg_exp)
qed

lemma binade_bounds:
  assumes "q \<noteq> 0"
  shows "2 powi binade q \<le> \<bar>q\<bar>" and "\<bar>q\<bar> < 2 powi (binade q + 1)"
proof -
  obtain a b where ab: "quotient_of \<bar>q\<bar> = (a, b)"
    by (cases "quotient_of \<bar>q\<bar>")
  have bpos: "0 < b" using ab by (rule quotient_of_denom_pos)
  have qab: "\<bar>q\<bar> = of_int a / of_int b" using ab by (rule quotient_of_div)
  have "0 < \<bar>q\<bar>" using assms by simp
  then have apos: "0 < a"
    using bpos unfolding qab by (simp add: zero_less_divide_iff)
  define d where "d = bitlen a - bitlen b"
  have bin: "binade q = (if 2 powi d \<le> \<bar>q\<bar> then d else d - 1)"
    by (simp add: binade_def ab d_def)
  have a1: "(2::rat) powi (bitlen a - 1) \<le> of_int a" and a2: "(of_int a :: rat) < 2 powi bitlen a"
    using bitlen_powi_bounds [OF apos] by auto
  have b1: "(2::rat) powi (bitlen b - 1) \<le> of_int b" and b2: "(of_int b :: rat) < 2 powi bitlen b"
    using bitlen_powi_bounds [OF bpos] by auto
  have bq: "(0::rat) < of_int b" using bpos by simp
  have "\<bar>q\<bar> * of_int b = of_int a" using bq by (simp add: qab)
  have up: "\<bar>q\<bar> < 2 powi (d + 1)"
  proof -
    have "of_int a < (2::rat) powi bitlen a" by (rule a2)
    also have "\<dots> = 2 powi (d + 1) * 2 powi (bitlen b - 1)"
      by (simp add: d_def flip: power_int_add)
    also have "\<dots> \<le> 2 powi (d + 1) * of_int b"
      using b1 by (intro mult_left_mono) simp_all
    finally have "of_int a < 2 powi (d + 1) * (of_int b :: rat)" .
    then show ?thesis using bq by (simp add: qab pos_divide_less_eq)
  qed
  have lo: "2 powi (d - 1) < \<bar>q\<bar>"
  proof -
    have "2 powi (d - 1) * (of_int b :: rat) < 2 powi (d - 1) * 2 powi bitlen b"
      using b2 by (intro mult_strict_left_mono) simp_all
    also have "\<dots> = 2 powi (bitlen a - 1)"
      by (simp add: d_def flip: power_int_add)
    also have "\<dots> \<le> of_int a" by (rule a1)
    finally show ?thesis using bq by (simp add: qab pos_less_divide_eq)
  qed
  show "2 powi binade q \<le> \<bar>q\<bar>"
    using lo by (simp add: bin)
  show "\<bar>q\<bar> < 2 powi (binade q + 1)"
    using up by (auto simp: bin not_le)
qed

lemma powi2_less_iff: "(2::rat) powi a < 2 powi b \<longleftrightarrow> a < b"
proof
  assume "(2::rat) powi a < 2 powi b"
  show "a < b"
  proof (rule ccontr)
    assume "\<not> a < b"
    then have "(2::rat) powi b \<le> 2 powi a" by (intro power_int_increasing) simp_all
    with \<open>(2::rat) powi a < 2 powi b\<close> show False by simp
  qed
next
  assume "a < b"
  then show "(2::rat) powi a < 2 powi b" by (intro power_int_strict_increasing) simp_all
qed

lemma powi2_le_iff: "(2::rat) powi a \<le> 2 powi b \<longleftrightarrow> a \<le> b"
  using powi2_less_iff [of b a] by (simp add: not_less [symmetric])

lemma binade_unique:
  assumes "2 powi e \<le> \<bar>q\<bar>" and "\<bar>q\<bar> < 2 powi (e + 1)"
  shows "binade q = e"
proof -
  have "(0::rat) < 2 powi e" by simp
  with assms(1) have "0 < \<bar>q\<bar>" by linarith
  then have q0: "q \<noteq> 0" by auto
  note B = binade_bounds [OF q0]
  have "(2::rat) powi e < 2 powi (binade q + 1)" using assms(1) B(2) by linarith
  moreover have "(2::rat) powi binade q < 2 powi (e + 1)" using assms(2) B(1) by linarith
  ultimately show ?thesis by (simp add: powi2_less_iff)
qed

lemma binade_mono:
  assumes "0 < q1" and "q1 \<le> q2"
  shows "binade q1 \<le> binade q2"
proof -
  have "(2::rat) powi binade q1 \<le> \<bar>q1\<bar>" using assms by (intro binade_bounds) simp
  also have "\<dots> \<le> \<bar>q2\<bar>" using assms by simp
  also have "\<dots> < 2 powi (binade q2 + 1)" using assms by (intro binade_bounds) simp
  finally show ?thesis by (simp add: powi2_less_iff)
qed

lemma binade_0: "binade 0 = - 2"
  by (simp add: binade_def compute_bitlen)

lemma binade_ge_iff:
  assumes "0 \<le> r"
  shows "k \<le> binade r \<longleftrightarrow> (r \<noteq> 0 \<and> 2 powi k \<le> r) \<or> (r = 0 \<and> k \<le> - 2)"
proof (cases "r = 0")
  case True
  then show ?thesis by (simp add: binade_0)
next
  case False
  note B = binade_bounds [OF False]
  have ar: "\<bar>r\<bar> = r" using assms by simp
  show ?thesis
  proof
    assume "k \<le> binade r"
    then have "(2::rat) powi k \<le> 2 powi binade r" by (simp add: powi2_le_iff)
    then show "(r \<noteq> 0 \<and> 2 powi k \<le> r) \<or> (r = 0 \<and> k \<le> - 2)"
      using B(1) False ar by linarith
  next
    assume "(r \<noteq> 0 \<and> 2 powi k \<le> r) \<or> (r = 0 \<and> k \<le> - 2)"
    then have "2 powi k \<le> r" using False by simp
    then have "(2::rat) powi k < 2 powi (binade r + 1)" using B(2) ar by linarith
    then show "k \<le> binade r" by (simp add: powi2_less_iff)
  qed
qed


lemma round_half_even_cases:
  "round_half_even t = \<lfloor>t\<rfloor> \<or> round_half_even t = \<lfloor>t\<rfloor> + 1"
  by (simp add: round_half_even_def Let_def)

lemma round_half_even_error: "\<bar>of_int (round_half_even t) - t\<bar> \<le> 1 / 2"
proof -
  have "of_int \<lfloor>t\<rfloor> \<le> t" and "t < of_int \<lfloor>t\<rfloor> + 1"
    by linarith+
  then show ?thesis
    by (auto simp: round_half_even_def Let_def)
qed

lemma round_half_even_of_int [simp]: "round_half_even (of_int n) = n"
  by (simp add: round_half_even_def)

lemma round_half_even_0 [simp]: "round_half_even 0 = 0"
  by (simp add: round_half_even_def)

lemma round_half_even_mono:
  assumes "s \<le> t"
  shows "round_half_even s \<le> round_half_even t"
proof (cases "\<lfloor>s\<rfloor> = \<lfloor>t\<rfloor>")
  case True
  then show ?thesis
    using assms by (auto simp: round_half_even_def Let_def)
next
  case False
  then have "\<lfloor>s\<rfloor> + 1 \<le> \<lfloor>t\<rfloor>"
    using floor_mono [OF assms] by linarith
  moreover have "round_half_even s \<le> \<lfloor>s\<rfloor> + 1"
    using round_half_even_cases [of s] by linarith
  moreover have "\<lfloor>t\<rfloor> \<le> round_half_even t"
    using round_half_even_cases [of t] by linarith
  ultimately show ?thesis by linarith
qed

lemma ulp_pos [simp]: "0 < ulp q"
  by (simp add: ulp_def)

lemma ulp_nonneg [simp]: "0 \<le> ulp q"
  using ulp_pos [of q] by (rule less_imp_le)

lemma ulp_neq_0 [simp]: "ulp q \<noteq> 0"
  by (simp add: ulp_def)

lemma rnd_val_error: "\<bar>rnd_val q - q\<bar> \<le> ulp q / 2"
proof -
  have "rnd_val q - q = (of_int (round_half_even (q / ulp q)) - q / ulp q) * ulp q"
    by (simp add: rnd_val_def left_diff_distrib)
  then have "\<bar>rnd_val q - q\<bar> = \<bar>of_int (round_half_even (q / ulp q)) - q / ulp q\<bar> * ulp q"
    by (simp add: abs_mult)
  also have "\<dots> \<le> 1 / 2 * ulp q"
    by (intro mult_right_mono round_half_even_error) simp
  finally show ?thesis by simp
qed

lemma rnd_val_nonneg:
  assumes "0 \<le> q"
  shows "0 \<le> rnd_val q"
proof -
  have "round_half_even 0 \<le> round_half_even (q / ulp q)"
    using assms by (intro round_half_even_mono) simp
  then show ?thesis
    using round_half_even_of_int [of 0] by (simp add: rnd_val_def)
qed

text \<open>Between the powers of two that enclose it, a number is rounded to a value
  between them.\<close>

lemma rnd_val_upper:
  assumes "0 < q"
  shows "rnd_val q \<le> 2 powi (max (binade q) (- 1022) + 1)"
proof -
  define e where "e = max (binade q) (- 1022)"
  have u: "ulp q = 2 powi (e - 52)" by (simp add: ulp_def e_def)
  have "q < 2 powi (binade q + 1)" using binade_bounds(2) [of q] assms by simp
  also have "\<dots> \<le> 2 powi (e + 1)" by (simp add: powi2_le_iff e_def)
  finally have "q / ulp q \<le> 2 powi (e + 1) / ulp q"
    by (intro divide_right_mono) simp_all
  also have "\<dots> = 2 powi 53"
    by (simp add: u power_int_diff [symmetric])
  also have "\<dots> = of_int (2 ^ 53)" by simp
  finally have "round_half_even (q / ulp q) \<le> round_half_even (of_int (2 ^ 53))"
    by (rule round_half_even_mono)
  then have "round_half_even (q / ulp q) \<le> 2 ^ 53" by (simp only: round_half_even_of_int)
  then have "(of_int (round_half_even (q / ulp q)) :: rat) \<le> of_int (2 ^ 53)"
    by (simp only: of_int_le_iff)
  then have "rnd_val q \<le> of_int (2 ^ 53) * ulp q"
    unfolding rnd_val_def by (intro mult_right_mono) simp_all
  also have "\<dots> = 2 powi (e + 1)"
    using power_int_add [of "2::rat" 53 "e - 52"] by (simp add: u add.commute)
  finally show ?thesis by (simp add: e_def)
qed

lemma rnd_val_lower:
  assumes "0 < q" and "- 1022 \<le> binade q"
  shows "2 powi binade q \<le> rnd_val q"
proof -
  define e where "e = binade q"
  have u: "ulp q = 2 powi (e - 52)" using assms(2) by (simp add: ulp_def e_def max_def)
  have "2 powi e \<le> q" using binade_bounds(1) [of q] assms by (simp add: e_def)
  then have "2 powi e / ulp q \<le> q / ulp q"
    by (intro divide_right_mono) simp_all
  moreover have "2 powi e / ulp q = of_int (2 ^ 52)"
    by (simp add: u power_int_diff [symmetric])
  ultimately have "round_half_even (of_int (2 ^ 52)) \<le> round_half_even (q / ulp q)"
    by (intro round_half_even_mono) simp
  then have "2 ^ 52 \<le> round_half_even (q / ulp q)" by (simp only: round_half_even_of_int)
  then have "(of_int (2 ^ 52) :: rat) \<le> of_int (round_half_even (q / ulp q))"
    by (simp only: of_int_le_iff)
  then have "of_int (2 ^ 52) * ulp q \<le> rnd_val q"
    unfolding rnd_val_def by (intro mult_right_mono) simp_all
  moreover have "of_int (2 ^ 52) * ulp q = 2 powi e"
    using power_int_add [of "2::rat" 52 "e - 52"] by (simp add: u)
  ultimately show ?thesis by (simp add: e_def)
qed

lemma rnd_val_mono:
  assumes "0 < q1" and "q1 \<le> q2"
  shows "rnd_val q1 \<le> rnd_val q2"
proof -
  define e1 where "e1 = max (binade q1) (- 1022)"
  define e2 where "e2 = max (binade q2) (- 1022)"
  have q2: "0 < q2" using assms by simp
  have le: "e1 \<le> e2"
    using binade_mono [OF assms] by (simp add: e1_def e2_def)
  show ?thesis
  proof (cases "e1 = e2")
    case True
    then have u: "ulp q1 = ulp q2" by (simp add: ulp_def e1_def e2_def)
    have "q1 / ulp q2 \<le> q2 / ulp q2"
      using assms(2) by (intro divide_right_mono) simp_all
    then have "round_half_even (q1 / ulp q2) \<le> round_half_even (q2 / ulp q2)"
      by (rule round_half_even_mono)
    then have "(of_int (round_half_even (q1 / ulp q2)) :: rat) \<le> of_int (round_half_even (q2 / ulp q2))"
      by (simp only: of_int_le_iff)
    then show ?thesis
      unfolding rnd_val_def u by (intro mult_right_mono) simp_all
  next
    case False
    with le have lt: "e1 < e2" by simp
    then have b2: "- 1022 \<le> binade q2" and e2: "e2 = binade q2"
      by (auto simp: e1_def e2_def max_def split: if_splits)
    have "rnd_val q1 \<le> 2 powi (e1 + 1)"
      using rnd_val_upper [OF assms(1)] by (simp add: e1_def)
    also have "\<dots> \<le> 2 powi e2"
      using lt by (simp add: powi2_le_iff)
    also have "\<dots> \<le> rnd_val q2"
      using rnd_val_lower [OF q2 b2] by (simp add: e2)
    finally show ?thesis .
  qed
qed


lemma rnd_pos:
  assumes "0 < q"
  shows "rnd q = (if 2 powi 1024 \<le> rnd_val q then PInf else Fin (rnd_val q))"
proof -
  have r: "0 \<le> rnd_val q" using assms by (intro rnd_val_nonneg) simp
  have "(0::rat) < 2 powi 1024" by (rule zero_less_power_int) simp
  then have "1024 \<le> binade (rnd_val q) \<longleftrightarrow> 2 powi 1024 \<le> rnd_val q"
    unfolding binade_ge_iff [OF r] by auto
  then show ?thesis
    using assms by (simp add: rnd_def Let_def)
qed

lemma rnd_val_0 [simp]: "rnd_val 0 = 0"
  by (simp add: rnd_val_def)

lemma rnd_nonneg:
  assumes "0 \<le> q"
  shows "rnd q = (if 2 powi 1024 \<le> rnd_val q then PInf else Fin (rnd_val q))"
proof (cases "q = 0")
  case True
  have "\<not> (2::rat) powi 1024 \<le> 0" by (simp add: not_le)
  then show ?thesis using True by (simp add: rnd_def)
next
  case False
  then show ?thesis using assms by (intro rnd_pos) simp
qed

lemma rnd_mono:
  assumes "0 \<le> q1" and "q1 \<le> q2"
  shows "\<not> js_lt (rnd q2) (rnd q1)"
proof -
  have q2: "0 \<le> q2" using assms by simp
  have v: "rnd_val q1 \<le> rnd_val q2"
  proof (cases "q1 = 0")
    case True
    then show ?thesis using rnd_val_nonneg [OF q2] by simp
  next
    case False
    then show ?thesis using assms by (intro rnd_val_mono) simp_all
  qed
  show ?thesis
    unfolding rnd_nonneg [OF assms(1)] rnd_nonneg [OF q2] using v by auto
qed

text \<open>A bound that is a binary64 value bounds the rounded result.\<close>

lemma rnd_le_Fin:
  assumes "0 \<le> q" and "q \<le> c" and "rnd c = Fin m"
  shows "rnd q = Fin (rnd_val q) \<and> 0 \<le> rnd_val q \<and> rnd_val q \<le> m"
proof -
  have c: "0 \<le> c" using assms by simp
  have "\<not> js_lt (rnd c) (rnd q)" using assms(1,2) by (rule rnd_mono)
  then have "\<not> js_lt (Fin m) (rnd q)" by (simp add: assms(3))
  then show ?thesis
    unfolding rnd_nonneg [OF assms(1)] using rnd_val_nonneg [OF assms(1)]
    by (auto split: if_splits)
qed

section \<open>Balances of two decimals\<close>

lemma lit_100_val: "lit_100 = Fin 100"
  by code_simp

lemma lit_1000_val: "lit_1000 = Fin 1000"
  by code_simp

lemma lit_max_val: "lit_max = Fin (4294967253050327 / 4294967296)"
  by code_simp

lemma rnd_max_cents: "rnd (99999999 / 100) = Fin (4294967253050327 / 4294967296)"
  using lit_max_val by (simp add: lit_max_def)

lemma rnd_max_scaled: "rnd (4294967253050327 / 4294967296 * 100) = Fin 99999999"
  by code_simp

lemma rnd_max_idem: "rnd (4294967253050327 / 4294967296) = Fin (4294967253050327 / 4294967296)"
  by code_simp

lemma rnd_val_rel_error:
  assumes "0 < q" and "- 1022 \<le> binade q"
  shows "\<bar>rnd_val q - q\<bar> \<le> q / 2 ^ 53"
proof -
  have "ulp q = 2 powi (binade q - 52)"
    using assms(2) by (simp add: ulp_def max_def)
  also have "\<dots> = 2 powi binade q / 2 powi 52"
    by (rule power_int_diff) simp
  finally have "ulp q / 2 = 2 powi binade q / 2 ^ 53" by simp
  also have "\<dots> \<le> q / 2 ^ 53"
    using binade_bounds(1) [of q] assms(1) by (intro divide_right_mono) simp_all
  finally show ?thesis using rnd_val_error [of q] by linarith
qed

lemma binade_ge_m7:
  assumes "1 / 128 \<le> q"
  shows "- 1022 \<le> binade q"
proof -
  have "0 \<le> q" using assms by simp
  from binade_ge_iff [OF this, of "- 7"] assms have "- 7 \<le> binade q" by simp
  then show ?thesis by simp
qed


lemma cents_rnd:
  assumes "0 \<le> n" and "n \<le> 99999999"
  shows "rnd (of_int n / 100) = Fin (cents n)"
    and "0 \<le> cents n"
    and "cents n \<le> 4294967253050327 / 4294967296"
proof -
  have "(0::rat) \<le> of_int n / 100" using assms(1) by simp
  moreover have "(of_int n :: rat) / 100 \<le> 99999999 / 100" using assms(2) by simp
  ultimately have "rnd (of_int n / 100) = Fin (rnd_val (of_int n / 100))
      \<and> 0 \<le> rnd_val (of_int n / 100)
      \<and> rnd_val (of_int n / 100) \<le> 4294967253050327 / 4294967296"
    using rnd_max_cents by (rule rnd_le_Fin)
  then show "rnd (of_int n / 100) = Fin (cents n)"
    and "0 \<le> cents n"
    and "cents n \<le> 4294967253050327 / 4294967296"
    by (simp_all add: cents_def)
qed

lemma cents_error:
  assumes "0 \<le> n"
  shows "\<bar>cents n * 100 - of_int n\<bar> \<le> of_int n / 2 ^ 53"
proof (cases "n = 0")
  case True
  then show ?thesis by (simp add: cents_def)
next
  case False
  define q :: rat where "q = of_int n / 100"
  have n1: "(1::rat) \<le> of_int n" using assms False by simp
  then have q: "1 / 128 \<le> q" by (simp add: q_def)
  then have "0 < q" by simp
  then have r: "\<bar>rnd_val q - q\<bar> \<le> q / 2 ^ 53"
    using binade_ge_m7 [OF q] by (rule rnd_val_rel_error)
  have "cents n * 100 - of_int n = (rnd_val q - q) * 100"
    by (simp add: cents_def q_def left_diff_distrib)
  then have "\<bar>cents n * 100 - of_int n\<bar> = \<bar>rnd_val q - q\<bar> * \<bar>100\<bar>"
    by (simp only: abs_mult)
  then have "\<bar>cents n * 100 - of_int n\<bar> = \<bar>rnd_val q - q\<bar> * 100"
    by simp
  also have "\<dots> \<le> q / 2 ^ 53 * 100"
    using r by (intro mult_right_mono) simp_all
  also have "\<dots> = of_int n / 2 ^ 53" by (simp add: q_def)
  finally show ?thesis .
qed

lemma small_error:
  assumes "0 \<le> n" and "n \<le> 99999999"
  shows "(of_int n :: rat) / 2 ^ 53 < 1 / 6"
proof -
  have "(of_int n :: rat) \<le> 99999999" using assms(2) by simp
  then have "(of_int n :: rat) / 2 ^ 53 \<le> 99999999 / 2 ^ 53"
    by (intro divide_right_mono) simp_all
  also have "\<dots> < (1 / 6 :: rat)" by simp
  finally show ?thesis .
qed

lemma floor_near_int:
  assumes "\<bar>x - of_int n\<bar> < 1 / 2"
  shows "\<lfloor>(x::rat) + 1 / 2\<rfloor> = n"
proof (rule floor_unique)
  show "of_int n \<le> x + 1 / 2" using assms by linarith
  show "x + 1 / 2 < of_int n + 1" using assms by linarith
qed

lemma cents_floor:
  assumes "0 \<le> n" and "n \<le> 99999999"
  shows "\<lfloor>cents n * 100 + 1 / 2\<rfloor> = n"
proof (rule floor_near_int)
  show "\<bar>cents n * 100 - of_int n\<bar> < 1 / 2"
    using cents_error [OF assms(1)] small_error [OF assms] by linarith
qed

lemma two_decimals_cents:
  assumes "0 \<le> n" and "n \<le> 99999999"
  shows "two_decimals (Fin (cents n))"
  using assms by (simp add: two_decimals_def cents_floor)

lemma two_decimals_iff:
  "two_decimals b \<longleftrightarrow> (\<exists>n. 0 \<le> n \<and> n \<le> 99999999 \<and> b = Fin (cents n))"
proof
  assume "two_decimals b"
  then show "\<exists>n. 0 \<le> n \<and> n \<le> 99999999 \<and> b = Fin (cents n)"
    unfolding two_decimals_def Let_def by (cases b) (simp_all only: jsnum.case, blast)
next
  assume "\<exists>n. 0 \<le> n \<and> n \<le> 99999999 \<and> b = Fin (cents n)"
  then show "two_decimals b" using two_decimals_cents by blast
qed

lemma cents_scaled:
  assumes "0 \<le> n" and "n \<le> 99999999"
  shows "rnd (cents n * 100) = Fin (rnd_val (cents n * 100))"
    and "\<lfloor>rnd_val (cents n * 100) + 1 / 2\<rfloor> = n"
proof -
  define p where "p = cents n * 100"
  have e: "\<bar>p - of_int n\<bar> \<le> of_int n / 2 ^ 53"
    using cents_error [OF assms(1)] by (simp add: p_def)
  note s = small_error [OF assms]
  have p0: "0 \<le> p" using cents_rnd(2) [OF assms] by (simp add: p_def)
  have "p \<le> 4294967253050327 / 4294967296 * 100"
    using cents_rnd(3) [OF assms] by (simp add: p_def)
  with p0 have "rnd p = Fin (rnd_val p) \<and> 0 \<le> rnd_val p \<and> rnd_val p \<le> 99999999"
    using rnd_max_scaled by (rule rnd_le_Fin)
  then show "rnd (cents n * 100) = Fin (rnd_val (cents n * 100))"
    by (simp add: p_def)
  have "\<bar>rnd_val p - of_int n\<bar> < 1 / 2"
  proof (cases "n = 0")
    case True
    then show ?thesis using e by (simp add: rnd_val_def)
  next
    case False
    then have n1: "(1::rat) \<le> of_int n" using assms(1) by simp
    have "1 / 128 \<le> p" using e s n1 by linarith
    moreover from this have "0 < p" by simp
    ultimately have r: "\<bar>rnd_val p - p\<bar> \<le> p / 2 ^ 53"
      using binade_ge_m7 by (intro rnd_val_rel_error)
    have "p \<le> 2 * of_int n" using e s n1 by linarith
    then have "p / 2 ^ 53 \<le> 2 * of_int n / 2 ^ 53"
      by (intro divide_right_mono) simp_all
    then have "p / 2 ^ 53 \<le> 2 * (of_int n / 2 ^ 53)" by simp
    with r e s show ?thesis by linarith
  qed
  then show "\<lfloor>rnd_val (cents n * 100) + 1 / 2\<rfloor> = n"
    unfolding p_def by (rule floor_near_int)
qed


lemma write_in_range:
  assumes "0 \<le> r" and "\<not> js_gt (Fin r) lit_max"
  shows "write_balance (Num (Fin r)) dm
           = Inr (dm\<lparr>storageBalance := Fin (cents \<lfloor>rnd_val (r * 100) + 1 / 2\<rfloor>)\<rparr>)"
    and "0 \<le> \<lfloor>rnd_val (r * 100) + 1 / 2\<rfloor>"
    and "\<lfloor>rnd_val (r * 100) + 1 / 2\<rfloor> \<le> 99999999"
proof -
  define n where "n = \<lfloor>rnd_val (r * 100) + 1 / 2\<rfloor>"
  have "r \<le> 4294967253050327 / 4294967296"
    using assms(2) by (simp add: js_gt_def lit_max_val)
  then have "r * 100 \<le> 4294967253050327 / 4294967296 * 100" by simp
  moreover have "0 \<le> r * 100" using assms(1) by simp
  ultimately have m: "rnd (r * 100) = Fin (rnd_val (r * 100))
      \<and> 0 \<le> rnd_val (r * 100) \<and> rnd_val (r * 100) \<le> 99999999"
    using rnd_max_scaled by (intro rnd_le_Fin)
  then have "0 \<le> rnd_val (r * 100) + 1 / 2" and "rnd_val (r * 100) + 1 / 2 < 100000000"
    by simp_all
  then show n: "0 \<le> \<lfloor>rnd_val (r * 100) + 1 / 2\<rfloor>"
      "\<lfloor>rnd_val (r * 100) + 1 / 2\<rfloor> \<le> 99999999"
    by simp_all
  have "js_div (Math_round (js_mul (Fin r) lit_100)) lit_100 = rnd (of_int n / 100)"
    using m by (simp add: lit_100_val n_def)
  also have "\<dots> = Fin (cents n)"
    using n unfolding n_def by (intro cents_rnd(1))
  finally show "write_balance (Num (Fin r)) dm
      = Inr (dm\<lparr>storageBalance := Fin (cents \<lfloor>rnd_val (r * 100) + 1 / 2\<rfloor>)\<rparr>)"
    using assms by (simp add: n_def)
qed

lemma write_cents:
  assumes "0 \<le> n" and "n \<le> 99999999"
  shows "write_balance (Num (Fin (cents n))) dm = Inr (dm\<lparr>storageBalance := Fin (cents n)\<rparr>)"
proof -
  have "\<not> js_gt (Fin (cents n)) lit_max"
    using cents_rnd(3) [OF assms] by (simp add: js_gt_def lit_max_val)
  with cents_rnd(2) [OF assms]
  have "write_balance (Num (Fin (cents n))) dm
      = Inr (dm\<lparr>storageBalance := Fin (cents \<lfloor>rnd_val (cents n * 100) + 1 / 2\<rfloor>)\<rparr>)"
    by (rule write_in_range(1))
  then show ?thesis by (simp only: cents_scaled(2) [OF assms])
qed

lemma write_two_decimals:
  assumes "0 \<le> r" and "\<not> js_gt (Fin r) lit_max"
  shows "\<exists>dm'. write_balance (Num (Fin r)) dm = Inr dm' \<and> two_decimals (read dm')"
  using write_in_range(1) [OF assms, of dm] write_in_range(2,3) [OF assms]
  by (simp add: two_decimals_cents read_def)


lemma js_gt_PInf_max: "js_gt PInf lit_max"
  by (simp add: js_gt_def lit_max_val)

lemma write_nonneg:
  assumes "b = PInf \<or> (\<exists>r. b = Fin r \<and> 0 \<le> r)"
  shows "write_balance (Num b) dm = Inl ''Invalid balance value'' \<and> js_gt b lit_max
       \<or> (\<exists>dm'. write_balance (Num b) dm = Inr dm' \<and> two_decimals (read dm'))
           \<and> \<not> js_gt b lit_max"
proof (cases "js_gt b lit_max")
  case True
  then show ?thesis by simp
next
  case False
  with assms obtain r where "b = Fin r" and "0 \<le> r"
    using js_gt_PInf_max by auto
  with False show ?thesis using write_two_decimals [of r dm] by simp
qed

lemma js_add_nonneg:
  assumes "0 \<le> q" and "a = PInf \<or> (\<exists>x. a = Fin x \<and> 0 \<le> x)"
  shows "js_add (Fin q) a = PInf \<or> (\<exists>r. js_add (Fin q) a = Fin r \<and> 0 \<le> r)"
proof -
  have *: "rnd (q + x) = PInf \<or> (\<exists>r. rnd (q + x) = Fin r \<and> 0 \<le> r)" if "0 \<le> x" for x
  proof -
    have "0 \<le> q + x" using assms(1) that by simp
    then show ?thesis using rnd_nonneg [of "q + x"] rnd_val_nonneg [of "q + x"] by simp
  qed
  show ?thesis
  proof (cases "a = PInf")
    case True
    then show ?thesis by simp
  next
    case False
    with assms(2) obtain x where "a = Fin x" and "0 \<le> x" by blast
    with * [of x] show ?thesis by simp
  qed
qed

lemma valid_amount:
  assumes "\<not> (js_isNaN a \<or> js_lt a (Fin 0))"
  shows "a = PInf \<or> (\<exists>x. a = Fin x \<and> 0 \<le> x)"
  using assms by (cases a) (auto simp: js_isNaN_def)

lemma credit_outcome:
  assumes "two_decimals (read dm)"
  shows "creditAccount ntos s dm = (Logged ''Invalid amount. Please enter a positive number.'', dm)
       \<or> creditAccount ntos s dm = (Threw ''Invalid balance value'', dm)
           \<and> js_gt (js_add (read dm) (parseFloat s)) lit_max
       \<or> (\<exists>l dm'. creditAccount ntos s dm = (Logged l, dm') \<and> two_decimals (read dm'))"
proof (cases "js_isNaN (parseFloat s) \<or> js_lt (parseFloat s) (Fin 0)")
  case True
  then show ?thesis by (simp add: creditAccount_def)
next
  case False
  obtain n where n: "0 \<le> n" "n \<le> 99999999" "read dm = Fin (cents n)"
    using assms unfolding two_decimals_iff by blast
  have "0 \<le> cents n" using n by (intro cents_rnd(2))
  then have "js_add (Fin (cents n)) (parseFloat s) = PInf
      \<or> (\<exists>r. js_add (Fin (cents n)) (parseFloat s) = Fin r \<and> 0 \<le> r)"
    using valid_amount [OF False] by (rule js_add_nonneg)
  from write_nonneg [OF this, of dm] False show ?thesis
    by (auto simp: creditAccount_def Let_def n(3))
qed

lemma debit_outcome:
  assumes "two_decimals (read dm)"
  shows "debitAccount ntos s dm = (Logged ''Invalid amount. Please enter a positive number.'', dm)
       \<or> debitAccount ntos s dm = (Logged ''Insufficient funds for this debit.'', dm)
       \<or> (\<exists>l dm'. debitAccount ntos s dm = (Logged l, dm') \<and> two_decimals (read dm'))"
proof (cases "js_isNaN (parseFloat s) \<or> js_lt (parseFloat s) (Fin 0)")
  case True
  then show ?thesis by (simp add: debitAccount_def)
next
  case False
  obtain n where n: "0 \<le> n" "n \<le> 99999999" "read dm = Fin (cents n)"
    using assms unfolding two_decimals_iff by blast
  show ?thesis
  proof (cases "js_ge (Fin (cents n)) (parseFloat s)")
    case ge: True
    with valid_amount [OF False] obtain x where x: "parseFloat s = Fin x" "0 \<le> x" "x \<le> cents n"
      by (auto simp: js_ge_def)
    have "0 \<le> cents n - x" using x by simp
    moreover have "cents n - x \<le> 4294967253050327 / 4294967296"
      using cents_rnd(3) [OF n(1,2)] x by simp
    ultimately have r: "rnd (cents n - x) = Fin (rnd_val (cents n - x))
        \<and> 0 \<le> rnd_val (cents n - x)
        \<and> rnd_val (cents n - x) \<le> 4294967253050327 / 4294967296"
      using rnd_max_idem by (rule rnd_le_Fin)
    then have "\<not> js_gt (Fin (rnd_val (cents n - x))) lit_max"
      by (simp add: js_gt_def lit_max_val)
    with r obtain dm' where
      "write_balance (Num (Fin (rnd_val (cents n - x)))) dm = Inr dm'" "two_decimals (read dm')"
      using write_two_decimals [of "rnd_val (cents n - x)" dm] by auto
    with False ge r x show ?thesis
      by (simp add: debitAccount_def Let_def n(3))
  next
    case False
    with \<open>\<not> (js_isNaN (parseFloat s) \<or> js_lt (parseFloat s) (Fin 0))\<close> show ?thesis
      by (simp add: debitAccount_def Let_def n(3))
  qed
qed

lemma new_two_decimals: "two_decimals (read new_DataManager)"
proof -
  have "cents 100000 = 1000" using lit_1000_val cents_rnd(1) [of 100000]
    by (simp add: lit_1000_def)
  then show ?thesis
    using two_decimals_cents [of 100000] by (simp add: new_DataManager_def read_def lit_1000_val)
qed

lemma perform_two_decimals:
  assumes "two_decimals (read dm)"
  shows "two_decimals (read (snd (perform ntos x dm)))"
proof (cases x)
  case (Credit s)
  then show ?thesis using credit_outcome [OF assms, of ntos s] assms by auto
next
  case (Debit s)
  then show ?thesis using debit_outcome [OF assms, of ntos s] assms by auto
qed

lemma two_decimals_in_bounds:
  assumes "two_decimals b"
  shows "in_bounds b"
proof -
  obtain n where n: "0 \<le> n" "n \<le> 99999999" "b = Fin (cents n)"
    using assms unfolding two_decimals_iff by blast
  from cents_rnd(2,3) [OF n(1,2)] show ?thesis by (simp add: n(3) in_bounds_def)
qed

lemma state_after_two_decimals:
  assumes "two_decimals (read dm)"
  shows "two_decimals (read (state_after ntos xs dm))"
proof (induction xs rule: rev_induct)
  case Nil
  show ?case using assms by (simp add: state_after_def)
next
  case (snoc x xs)
  then have "two_decimals (read (snd (perform ntos x (state_after ntos xs dm))))"
    by (rule perform_two_decimals)
  then show ?case by (simp add: state_after_def)
qed

lemma credit_rejects:
  assumes "two_decimals (read dm)"
    and "\<not> (js_isNaN (parseFloat s) \<or> js_lt (parseFloat s) (Fin 0))"
    and "\<not> in_bounds (js_add (read dm) (parseFloat s))"
  shows "creditAccount ntos s dm = (Threw ''Invalid balance value'', dm)"
proof -
  obtain n where n: "0 \<le> n" "n \<le> 99999999" "read dm = Fin (cents n)"
    using assms(1) unfolding two_decimals_iff by blast
  have "0 \<le> cents n" using n by (intro cents_rnd(2))
  then have "js_add (Fin (cents n)) (parseFloat s) = PInf
      \<or> (\<exists>r. js_add (Fin (cents n)) (parseFloat s) = Fin r \<and> 0 \<le> r)"
    using valid_amount [OF assms(2)] by (rule js_add_nonneg)
  then have "js_gt (js_add (read dm) (parseFloat s)) lit_max"
    using assms(3) js_gt_PInf_max
    by (auto simp: n(3) in_bounds_def js_gt_def lit_max_val)
  then show ?thesis
    using assms(2) by (simp add: creditAccount_def Let_def)
qed

section \<open>The balance stays in its range\<close>

text \<open>
  Claim C1. Whatever credit and debit operations are applied to a fresh ledger, with
  whatever input strings, the stored balance is in \<open>[0, 999999.99]\<close> after each of them.
  The only write of these operations that can leave the range is the one of a credit
  whose sum is too large; it is rejected with the error \<^verbatim>\<open>Invalid balance value\<close>, and the
  data manager is left as it was.
\<close>

theorem balance_stays_in_bounds:
  "in_bounds (read (state_after ntos xs new_DataManager))
   \<and> (\<not> js_isNaN (parseFloat s) \<and> \<not> js_lt (parseFloat s) (Fin 0)
        \<and> \<not> in_bounds (js_add (read (state_after ntos xs new_DataManager)) (parseFloat s))
      \<longrightarrow> creditAccount ntos s (state_after ntos xs new_DataManager)
            = (Threw ''Invalid balance value'', state_after ntos xs new_DataManager))"
proof -
  have "two_decimals (read (state_after ntos xs new_DataManager))"
    using new_two_decimals by (rule state_after_two_decimals)
  then show ?thesis
    using two_decimals_in_bounds credit_rejects by blast
qed

theorem balance_stays_in_bounds_witness:
  "in_bounds (read (state_after no_toString [Credit ''500.25'', Debit ''2000''] new_DataManager))
   \<and> \<not> js_isNaN (parseFloat ''999999'') \<and> \<not> js_lt (parseFloat ''999999'') (Fin 0)
   \<and> \<not> in_bounds (js_add (read (state_after no_toString [Credit ''500.25'', Debit ''2000''] new_DataManager))
                        (parseFloat ''999999''))
   \<and> creditAccount no_toString ''999999'' (state_after no_toString [Credit ''500.25'', Debit ''2000''] new_DataManager)
       = (Threw ''Invalid balance value'', \<lparr>storageBalance = Fin (6001 / 4)\<rparr>)"
proof -
  have st: "state_after no_toString [Credit ''500.25'', Debit ''2000''] new_DataManager
      = \<lparr>storageBalance = Fin (6001 / 4)\<rparr>"
    by code_simp
  have a: "parseFloat ''999999'' = Fin 999999"
    by code_simp
  have b: "rnd (4005997 / 4) = Fin (4005997 / 4)"
    by code_simp
  from balance_stays_in_bounds [of no_toString "[Credit ''500.25'', Debit ''2000'']" "''999999''"]
  show ?thesis
    by (simp add: st a b read_def in_bounds_def js_isNaN_def)
qed

section \<open>Validation in \<^verbatim>\<open>DataManager.write\<close>\<close>

lemma js_lt_NaN_right [simp]: "js_lt x NaN = False"
  by (cases x) simp_all

text \<open>
  Claim C3. \<^verbatim>\<open>write\<close> is to reject every argument that is not a finite number in
  \<open>[0, 999999.99]\<close>. The argument \<open>NaN\<close> is a number for \<^verbatim>\<open>typeof\<close>, and both
  comparisons of the guard are false on it: \<^verbatim>\<open>write(NaN)\<close> does not throw, and the stored
  balance becomes \<open>NaN\<close>, whatever it was.
\<close>

theorem write_NaN_not_rejected:
  "write_balance (Num NaN) dm = Inr (dm\<lparr>storageBalance := NaN\<rparr>)"
  by (simp add: js_gt_def)

section \<open>Rejected operations\<close>

text \<open>
  Claim C2. Whatever the stored balance, a debit whose amount is accepted by the
  validation and is greater than the balance prints exactly
  \<^verbatim>\<open>Insufficient funds for this debit.\<close> and writes nothing: the data manager is the one
  that was given.
\<close>

theorem debit_insufficient_funds:
  assumes "\<not> js_isNaN (parseFloat s)" and "\<not> js_lt (parseFloat s) (Fin 0)"
    and "js_gt (parseFloat s) (read dm)"
  shows "debitAccount ntos s dm = (Logged ''Insufficient funds for this debit.'', dm)"
  using assms by (simp add: debitAccount_def js_ge_def js_gt_def Let_def)

theorem debit_insufficient_funds_witness:
  "\<not> js_isNaN (parseFloat ''1500'') \<and> \<not> js_lt (parseFloat ''1500'') (Fin 0)
   \<and> js_gt (parseFloat ''1500'') (read new_DataManager)
   \<and> debitAccount no_toString ''1500'' new_DataManager
       = (Logged ''Insufficient funds for this debit.'', new_DataManager)"
proof -
  have a: "parseFloat ''1500'' = Fin 1500"
    by code_simp
  have h: "\<not> js_isNaN (parseFloat ''1500'')" "\<not> js_lt (parseFloat ''1500'') (Fin 0)"
    "js_gt (parseFloat ''1500'') (read new_DataManager)"
    by (simp_all add: a js_isNaN_def js_gt_def read_def new_DataManager_def lit_1000_val)
  from h debit_insufficient_funds [OF h, of no_toString] show ?thesis
    by simp
qed

text \<open>
  Claim C4. An input string that \<^verbatim>\<open>parseFloat\<close> does not parse (the result is \<open>NaN\<close>), or
  parses to a negative number, makes both credit and debit print exactly
  \<^verbatim>\<open>Invalid amount. Please enter a positive number.\<close> and leave the data manager as it
  was; \<^verbatim>\<open>abc\<close> is such a string.
\<close>

theorem invalid_amount_rejected:
  "(js_isNaN (parseFloat s) \<or> js_lt (parseFloat s) (Fin 0)
      \<longrightarrow> creditAccount ntos s dm = (Logged ''Invalid amount. Please enter a positive number.'', dm)
        \<and> debitAccount ntos s dm = (Logged ''Invalid amount. Please enter a positive number.'', dm))
   \<and> js_isNaN (parseFloat ''abc'')"
proof -
  have "parseFloat ''abc'' = NaN"
    by code_simp
  then show ?thesis
    by (simp add: creditAccount_def debitAccount_def js_isNaN_def)
qed

theorem invalid_amount_rejected_witness:
  "js_lt (parseFloat ''-500'') (Fin 0)
   \<and> creditAccount no_toString ''-500'' new_DataManager
       = (Logged ''Invalid amount. Please enter a positive number.'', new_DataManager)
   \<and> debitAccount no_toString ''-500'' new_DataManager
       = (Logged ''Invalid amount. Please enter a positive number.'', new_DataManager)
   \<and> js_isNaN (parseFloat ''abc'')
   \<and> creditAccount no_toString ''abc'' new_DataManager
       = (Logged ''Invalid amount. Please enter a positive number.'', new_DataManager)
   \<and> debitAccount no_toString ''abc'' new_DataManager
       = (Logged ''Invalid amount. Please enter a positive number.'', new_DataManager)"
proof -
  have a: "parseFloat ''-500'' = Fin (- 500)"
    by code_simp
  from invalid_amount_rejected [of "''-500''" no_toString new_DataManager]
    invalid_amount_rejected [of "''abc''" no_toString new_DataManager]
  show ?thesis
    by (simp add: a)
qed

section \<open>The debit of the whole balance\<close>

lemma format_zero: "padStart 9 CHR ''0'' (toFixed2 ntos (Fin 0)) = ''000000.00''"
  by code_simp

lemma write_zero: "write_balance (Num (Fin 0)) dm = Inr (dm\<lparr>storageBalance := Fin 0\<rparr>)"
  using write_cents [of 0 dm] by (simp add: cents_def)

text \<open>
  Claim C5. The comparison of a debit is inclusive: when the amount parsed equals the
  stored balance the debit is done, the balance becomes zero and the line printed is
  \<^verbatim>\<open>Amount debited. New balance: 000000.00\<close>. On a fresh ledger this is the debit of
  \<^verbatim>\<open>1000\<close>.
\<close>

theorem debit_whole_balance:
  "(parseFloat s = Fin q \<and> 0 \<le> q \<and> read dm = Fin q
      \<longrightarrow> debitAccount ntos s dm
          = (Logged ''Amount debited. New balance: 000000.00'', dm\<lparr>storageBalance := Fin 0\<rparr>))
   \<and> debitAccount ntos ''1000'' new_DataManager
       = (Logged ''Amount debited. New balance: 000000.00'', \<lparr>storageBalance = Fin 0\<rparr>)"
proof -
  have *: "debitAccount ntos s dm
      = (Logged ''Amount debited. New balance: 000000.00'', dm\<lparr>storageBalance := Fin 0\<rparr>)"
    if "parseFloat s = Fin q" and "0 \<le> q" and "read dm = Fin q" for s q dm
    using that
    by (simp add: debitAccount_def js_isNaN_def js_ge_def Let_def rnd_def write_zero format_zero
        del: write_balance.simps)
  have "parseFloat ''1000'' = Fin 1000"
    by code_simp
  from * [OF this, of new_DataManager] show ?thesis
    using * by (simp add: read_def new_DataManager_def lit_1000_val)
qed

theorem debit_whole_balance_witness:
  "parseFloat ''250.75'' = Fin (1003 / 4) \<and> (0::rat) \<le> 1003 / 4
   \<and> read \<lparr>storageBalance = Fin (1003 / 4)\<rparr> = Fin (1003 / 4)
   \<and> debitAccount no_toString ''250.75'' \<lparr>storageBalance = Fin (1003 / 4)\<rparr>
       = (Logged ''Amount debited. New balance: 000000.00'', \<lparr>storageBalance = Fin 0\<rparr>)"
proof -
  have a: "parseFloat ''250.75'' = Fin (1003 / 4)"
    by code_simp
  from debit_whole_balance [of "''250.75''" "1003 / 4" "\<lparr>storageBalance = Fin (1003 / 4)\<rparr>" no_toString]
  show ?thesis
    by (simp add: a read_def)
qed

section \<open>Binary64 values are rounded to themselves\<close>

text \<open>A multiple of the spacing of its binade, or of a finer one, is a binary64 value.\<close>

lemma rnd_val_fixed:
  assumes "c = of_int k * 2 powi (e - 52)" and "- 1022 \<le> e" and "binade c \<le> e"
  shows "rnd_val c = c"
proof -
  define e' where "e' = max (binade c) (- 1022)"
  have le: "e' \<le> e" using assms(2,3) by (simp add: e'_def)
  have u: "ulp c = 2 powi (e' - 52)" by (simp add: ulp_def e'_def)
  define m where "m = k * 2 ^ nat (e - e')"
  have "(2::rat) powi (e - 52) = 2 powi (e - e') * 2 powi (e' - 52)"
    using power_int_add [of "2::rat" "e - e'" "e' - 52"] by simp
  moreover have "(2::rat) powi (e - e') = of_int (2 ^ nat (e - e'))"
    using le by (simp add: power_int_nonneg_exp)
  ultimately have cm: "c = of_int m * 2 powi (e' - 52)"
    by (simp add: assms(1) m_def)
  then have d: "c / 2 powi (e' - 52) = of_int m"
    by simp
  have "rnd_val c = of_int (round_half_even (c / 2 powi (e' - 52))) * 2 powi (e' - 52)"
    by (simp only: rnd_val_def u)
  also have "\<dots> = of_int m * 2 powi (e' - 52)"
    by (simp only: d round_half_even_of_int)
  also have "\<dots> = c"
    by (rule cm [symmetric])
  finally show ?thesis .
qed

lemma rnd_val_idem:
  assumes "0 \<le> q"
  shows "rnd_val (rnd_val q) = rnd_val q"
proof (cases "q = 0")
  case True
  then show ?thesis by simp
next
  case False
  with assms have q: "0 < q" by simp
  define e where "e = max (binade q) (- 1022)"
  define c where "c = rnd_val q"
  have e: "- 1022 \<le> e" by (simp add: e_def)
  have c: "c = of_int (round_half_even (q / ulp q)) * 2 powi (e - 52)"
    by (simp add: c_def rnd_val_def ulp_def e_def)
  have c0: "0 \<le> c" unfolding c_def using assms by (rule rnd_val_nonneg)
  have up: "c \<le> 2 powi (e + 1)"
    unfolding c_def e_def using q by (rule rnd_val_upper)
  consider "c = 0" | "c = 2 powi (e + 1)" | "0 < c" "c < 2 powi (e + 1)"
    using c0 up by linarith
  then have "rnd_val c = c"
  proof cases
    case 1
    then show ?thesis by simp
  next
    case 2
    have "(2::rat) powi (e + 1) = 2 powi 52 * 2 powi (e + 1 - 52)"
      using power_int_add [of "2::rat" 52 "e + 1 - 52"] by (simp add: add.commute)
    then have a: "c = of_int (2 ^ 52) * 2 powi (e + 1 - 52)"
      using 2 by simp
    have "(2::rat) powi (e + 1) < 2 powi (e + 1 + 1)"
      by (simp add: powi2_less_iff)
    then have "binade c = e + 1"
      using 2 by (intro binade_unique) simp_all
    then show ?thesis
      using e by (intro rnd_val_fixed [OF a]) simp_all
  next
    case 3
    have "(2::rat) powi binade c \<le> \<bar>c\<bar>"
      using 3(1) by (intro binade_bounds) simp
    then have "(2::rat) powi binade c < 2 powi (e + 1)"
      using 3 by simp
    then have "binade c \<le> e" by (simp add: powi2_less_iff)
    with c e show ?thesis by (rule rnd_val_fixed)
  qed
  then show ?thesis by (simp add: c_def)
qed

lemma rnd_cents:
  assumes "0 \<le> n" and "n \<le> 99999999"
  shows "rnd (cents n) = Fin (cents n)"
proof -
  have "rnd (cents n) = Fin (rnd_val (cents n)) \<and> 0 \<le> rnd_val (cents n)
      \<and> rnd_val (cents n) \<le> 4294967253050327 / 4294967296"
    using cents_rnd(2,3) [OF assms] rnd_max_idem by (rule rnd_le_Fin)
  moreover have "rnd_val (cents n) = cents n"
    using assms(1) unfolding cents_def by (intro rnd_val_idem) simp
  ultimately show ?thesis by simp
qed

section \<open>Zero amounts\<close>

lemma parse_zero: "parseFloat ''0'' = Fin 0"
  by code_simp

text \<open>
  Claim C9. Zero is an accepted amount. On a stored balance of two decimals in
  \<open>[0, 999999.99]\<close>, a credit and a debit with the input \<^verbatim>\<open>0\<close> leave the data manager as
  it was, and print their success message with the formatted balance, which is the one
  before the operation.
\<close>

theorem zero_amount_no_change:
  assumes "two_decimals (read dm)"
  shows "creditAccount ntos ''0'' dm
           = (Logged (''Amount credited. New balance: '' @ getFormattedBalance ntos dm), dm)
       \<and> debitAccount ntos ''0'' dm
           = (Logged (''Amount debited. New balance: '' @ getFormattedBalance ntos dm), dm)"
proof -
  obtain n where n: "0 \<le> n" "n \<le> 99999999" "read dm = Fin (cents n)"
    using assms unfolding two_decimals_iff by blast
  have dm: "dm\<lparr>storageBalance := Fin (cents n)\<rparr> = dm"
    using n(3) by (simp add: read_def)
  have c: "0 \<le> cents n" using n by (intro cents_rnd(2))
  have w: "write_balance (Num (Fin (cents n))) dm = Inr dm"
    using write_cents [OF n(1,2), of dm] by (simp only: dm)
  have f: "getFormattedBalance ntos dm = padStart 9 CHR ''0'' (toFixed2 ntos (Fin (cents n)))"
    using n(3) by (simp add: getFormattedBalance_def read_def)
  show ?thesis
    using c by (simp add: creditAccount_def debitAccount_def parse_zero js_isNaN_def js_ge_def
        Let_def n(3) rnd_cents [OF n(1,2)] w f del: write_balance.simps)
qed

theorem zero_amount_no_change_witness:
  "two_decimals (read new_DataManager)
   \<and> creditAccount no_toString ''0'' new_DataManager
       = (Logged ''Amount credited. New balance: 001000.00'', new_DataManager)
   \<and> debitAccount no_toString ''0'' new_DataManager
       = (Logged ''Amount debited. New balance: 001000.00'', new_DataManager)"
proof -
  have "getFormattedBalance no_toString new_DataManager = ''001000.00''"
    by code_simp
  with zero_amount_no_change [OF new_two_decimals, of no_toString] new_two_decimals
  show ?thesis by simp
qed

section \<open>The formatted balance\<close>

lemma digit_char_props:
  assumes "0 \<le> d" and "d < 10"
  shows "is_digit (digit_char d)" and "digit_val (digit_char d) = d"
proof -
  from assms have "d = 0 \<or> d = 1 \<or> d = 2 \<or> d = 3 \<or> d = 4 \<or> d = 5 \<or> d = 6 \<or> d = 7 \<or> d = 8 \<or> d = 9"
    by arith
  then show "is_digit (digit_char d)" and "digit_val (digit_char d) = d"
    by (auto simp: digit_char_def is_digit_def digit_val_def)
qed

lemma digits10_digits:
  assumes "0 \<le> n"
  shows "\<forall>c \<in> set (digits10 n). is_digit c"
  using assms
proof (induction n rule: digits10.induct)
  case (1 n)
  show ?case
  proof (cases "n < 10")
    case True
    then show ?thesis
      using "1.prems" by (subst digits10.simps) (simp add: digit_char_props(1))
  next
    case False
    then have "\<forall>c \<in> set (digits10 (n div 10)). is_digit c"
      using "1.prems" by (intro "1.IH") simp_all
    moreover have "is_digit (digit_char (n mod 10))"
      by (intro digit_char_props(1)) simp_all
    ultimately show ?thesis
      using False by (subst digits10.simps) simp
  qed
qed

lemma digits10_length:
  assumes "0 \<le> n" and "n < 10 ^ k" and "0 < k"
  shows "length (digits10 n) \<le> k" and "digits10 n \<noteq> []"
  using assms
proof (induction n arbitrary: k rule: digits10.induct)
  case (1 n)
  {
    case 1
    show ?case
    proof (cases "n < 10")
      case True
      then show ?thesis using \<open>0 < k\<close> by (subst digits10.simps) simp
    next
      case False
      obtain j where k: "k = Suc j" using \<open>0 < k\<close> by (cases k) simp_all
      have "j \<noteq> 0"
      proof
        assume "j = 0"
        with False \<open>n < 10 ^ k\<close> show False by (simp add: k)
      qed
      moreover have "n < 10 * 10 ^ j" using \<open>n < 10 ^ k\<close> by (simp add: k)
      then have "n div 10 < 10 ^ j" by linarith
      ultimately have "length (digits10 (n div 10)) \<le> j"
        using False \<open>0 \<le> n\<close> by (intro "1.IH"(1)) simp_all
      then show ?thesis
        using False by (subst digits10.simps) (simp add: k)
    qed
  next
    case 2
    show ?case by (subst digits10.simps) simp
  }
qed


lemma digits_val_snoc: "digits_val (ds @ [c]) = 10 * digits_val ds + digit_val c"
  by (simp add: digits_val_def)

lemma digits_val_digits10:
  assumes "0 \<le> n"
  shows "digits_val (digits10 n) = n"
  using assms
proof (induction n rule: digits10.induct)
  case (1 n)
  show ?case
  proof (cases "n < 10")
    case True
    then show ?thesis
      using "1.prems" by (subst digits10.simps) (simp add: digits_val_def digit_char_props(2))
  next
    case False
    then have "digits_val (digits10 (n div 10)) = n div 10"
      using "1.prems" by (intro "1.IH") simp_all
    moreover have "digit_val (digit_char (n mod 10)) = n mod 10"
      by (intro digit_char_props(2)) simp_all
    ultimately show ?thesis
      using False by (subst digits10.simps) (simp add: digits_val_snoc)
  qed
qed

lemma digits_val_zeros: "digits_val (replicate k CHR ''0'' @ ds) = digits_val ds"
proof (induction k)
  case 0
  show ?case by simp
next
  case (Suc k)
  have "digits_val (CHR ''0'' # xs) = digits_val xs" for xs
    by (simp add: digits_val_def digit_val_def)
  then show ?case using Suc by simp
qed

text \<open>The text of \<^verbatim>\<open>toFixed(2)\<close> padded to nine characters, for a number of hundredths below
  \<open>10\<^sup>8\<close>: six digits, a point, two digits, and the digits are those of the number.\<close>

lemma pad_to_fixed:
  assumes "0 \<le> n" and "n \<le> 99999999"
  defines "m \<equiv> replicate (3 - length (digits10 n)) CHR ''0'' @ digits10 n"
  defines "t \<equiv> padStart 9 CHR ''0'' (take (length m - 2) m @ ''.'' @ drop (length m - 2) m)"
  shows "length t = 9" and "t ! 6 = CHR ''.''"
    and "\<forall>c \<in> set (take 6 t @ drop 7 t). is_digit c"
    and "digits_val (take 6 t @ drop 7 t) = n"
proof -
  define k where "k = length m"
  have "n < 10 ^ 8" using assms(2) by simp
  then have "length (digits10 n) \<le> 8"
    using assms(1) by (intro digits10_length(1)) simp_all
  then have k: "3 \<le> k" "k \<le> 8" by (auto simp: k_def m_def)
  define ip where "ip = replicate (8 - k) CHR ''0'' @ take (k - 2) m"
  define fp where "fp = drop (k - 2) m"
  have lip: "length ip = 6" using k by (simp add: ip_def k_def [symmetric])
  have lfp: "length fp = 2" using k by (simp add: fp_def k_def [symmetric])
  have t: "t = ip @ ''.'' @ fp"
    using k by (simp add: t_def padStart_def ip_def fp_def k_def [symmetric])
  have "ip @ fp = replicate (8 - k) CHR ''0'' @ m"
    by (simp add: ip_def fp_def)
  then have z: "ip @ fp = replicate (8 - k + (3 - length (digits10 n))) CHR ''0'' @ digits10 n"
    by (simp add: m_def replicate_add)
  have tk: "take 6 t @ drop 7 t = ip @ fp"
    using lip lfp by (simp add: t)
  show "length t = 9" using lip lfp by (simp add: t)
  show "t ! 6 = CHR ''.''" using lip by (simp add: t nth_append)
  have "is_digit CHR ''0''" by (simp add: is_digit_def)
  then show "\<forall>c \<in> set (take 6 t @ drop 7 t). is_digit c"
    unfolding tk z using digits10_digits [OF assms(1)] by (auto split: if_splits)
  show "digits_val (take 6 t @ drop 7 t) = n"
    unfolding tk z by (simp only: digits_val_zeros digits_val_digits10 [OF assms(1)])
qed


lemma format_in_bounds:
  fixes ntos :: "rat \<Rightarrow> string"
  assumes "0 \<le> q" and "q \<le> 99999999 / 100"
  defines "n \<equiv> \<lfloor>q * 100 + 1 / 2\<rfloor>"
  defines "t \<equiv> padStart 9 CHR ''0'' (toFixed2 ntos (Fin q))"
  shows "length t = 9" and "t ! 6 = CHR ''.''"
    and "\<forall>c \<in> set (take 6 t @ drop 7 t). is_digit c"
    and "digits_val (take 6 t @ drop 7 t) = n"
proof -
  have n0: "0 \<le> n" using assms(1) by (simp add: n_def)
  have "q * 100 + 1 / 2 < 100000000" using assms(2) by simp
  then have n1: "n \<le> 99999999" by (simp add: n_def)
  have "\<not> 10 ^ 21 \<le> q" using assms(2) by simp
  then have teq: "t = padStart 9 CHR ''0''
      (take (length (replicate (3 - length (digits10 n)) CHR ''0'' @ digits10 n) - 2)
         (replicate (3 - length (digits10 n)) CHR ''0'' @ digits10 n)
       @ ''.'' @
       drop (length (replicate (3 - length (digits10 n)) CHR ''0'' @ digits10 n) - 2)
         (replicate (3 - length (digits10 n)) CHR ''0'' @ digits10 n))"
    using assms(1) by (simp add: t_def toFixed2_def Let_def n_def)
  show "length t = 9"
    unfolding teq using n0 n1 by (rule pad_to_fixed(1))
  show "t ! 6 = CHR ''.''"
    unfolding teq using n0 n1 by (rule pad_to_fixed(2))
  show "\<forall>c \<in> set (take 6 t @ drop 7 t). is_digit c"
    unfolding teq using n0 n1 by (rule pad_to_fixed(3))
  show "digits_val (take 6 t @ drop 7 t) = n"
    unfolding teq using n0 n1 by (rule pad_to_fixed(4))
qed

text \<open>
  Claim C8. For a stored balance in \<open>[0, 999999.99]\<close> the formatted balance has exactly
  nine characters: six digits (the integer part, padded with \<^verbatim>\<open>0\<close> on the left), a point,
  and two digits; read as a number of hundredths, the digits are the balance rounded to
  the nearest hundredth. On a fresh ledger \<^verbatim>\<open>viewBalance\<close> prints
  \<^verbatim>\<open>Current balance: 001000.00\<close>.
\<close>

theorem formatted_balance_shape:
  "(in_bounds (storageBalance dm) \<longrightarrow>
      length (getFormattedBalance ntos dm) = 9
      \<and> getFormattedBalance ntos dm ! 6 = CHR ''.''
      \<and> (\<forall>c \<in> set (take 6 (getFormattedBalance ntos dm) @ drop 7 (getFormattedBalance ntos dm)).
            is_digit c)
      \<and> (\<forall>q. storageBalance dm = Fin q \<longrightarrow>
            digits_val (take 6 (getFormattedBalance ntos dm) @ drop 7 (getFormattedBalance ntos dm))
              = \<lfloor>q * 100 + 1 / 2\<rfloor>))
   \<and> viewBalance ntos new_DataManager = (Logged ''Current balance: 001000.00'', new_DataManager)"
proof -
  have "viewBalance ntos new_DataManager = (Logged ''Current balance: 001000.00'', new_DataManager)"
    by code_simp
  moreover have "length (getFormattedBalance ntos dm) = 9
      \<and> getFormattedBalance ntos dm ! 6 = CHR ''.''
      \<and> (\<forall>c \<in> set (take 6 (getFormattedBalance ntos dm) @ drop 7 (getFormattedBalance ntos dm)).
            is_digit c)
      \<and> (\<forall>q. storageBalance dm = Fin q \<longrightarrow>
            digits_val (take 6 (getFormattedBalance ntos dm) @ drop 7 (getFormattedBalance ntos dm))
              = \<lfloor>q * 100 + 1 / 2\<rfloor>)"
    if "in_bounds (storageBalance dm)"
  proof -
    from that obtain q where q: "storageBalance dm = Fin q" "0 \<le> q" "q \<le> 99999999 / 100"
      by (auto simp: in_bounds_def split: jsnum.splits)
    from format_in_bounds [OF q(2,3), of ntos] show ?thesis
      by (simp add: getFormattedBalance_def q(1))
  qed
  ultimately show ?thesis by blast
qed

theorem formatted_balance_shape_witness:
  "in_bounds (storageBalance \<lparr>storageBalance = Fin (12345 / 100)\<rparr>)
   \<and> getFormattedBalance no_toString \<lparr>storageBalance = Fin (12345 / 100)\<rparr> = ''000123.45''
   \<and> length (getFormattedBalance no_toString \<lparr>storageBalance = Fin (12345 / 100)\<rparr>) = 9
   \<and> getFormattedBalance no_toString \<lparr>storageBalance = Fin (12345 / 100)\<rparr> ! 6 = CHR ''.''
   \<and> digits_val (take 6 (getFormattedBalance no_toString \<lparr>storageBalance = Fin (12345 / 100)\<rparr>)
                   @ drop 7 (getFormattedBalance no_toString \<lparr>storageBalance = Fin (12345 / 100)\<rparr>))
       = \<lfloor>(12345 / 100 :: rat) * 100 + 1 / 2\<rfloor>"
proof -
  have f: "getFormattedBalance no_toString \<lparr>storageBalance = Fin (12345 / 100)\<rparr> = ''000123.45''"
    by code_simp
  have b: "in_bounds (storageBalance \<lparr>storageBalance = Fin (12345 / 100)\<rparr>)"
    by (simp add: in_bounds_def)
  have s: "storageBalance \<lparr>storageBalance = Fin (12345 / 100)\<rparr> = Fin (12345 / 100)"
    by simp
  from formatted_balance_shape [of "\<lparr>storageBalance = Fin (12345 / 100)\<rparr>" no_toString] b f s
  show ?thesis
    by blast
qed

section \<open>What \<^verbatim>\<open>parseFloat\<close> accepts\<close>

text \<open>
  Characters after the number: white space is trimmed at the start of the string only,
  and the scan of the digits, of the fraction and of the exponent stops at the first
  character that does not fit.
\<close>

lemma is_digit_not_symbol:
  assumes "is_digit c"
  shows "c \<noteq> CHR ''.''" and "c \<noteq> CHR ''e''" and "c \<noteq> CHR ''E''" and "c \<noteq> CHR ''+''"
    and "c \<noteq> CHR ''-''" and "c \<noteq> CHR ''I''"
  using assms by (auto simp: is_digit_def)

lemma ws_len_keeps:
  assumes "ws_len s \<noteq> 0"
  shows "ws_len (s @ t) = ws_len s"
proof -
  consider "s = []" | a where "s = [a]" | a b where "s = [a, b]" | a b d v where "s = a # b # d # v"
    by (cases s rule: list.exhaust; cases "tl s"; cases "tl (tl s)") auto
  then show ?thesis
  proof cases
    case 1
    then show ?thesis using assms by (simp add: ws_len_def)
  next
    case 2
    then show ?thesis using assms
      by (cases t; cases "tl t") (auto simp: ws_len_def split: if_splits)
  next
    case 3
    then show ?thesis using assms
      by (cases t) (auto simp: ws_len_def split: if_splits)
  next
    case 4
    then show ?thesis by (simp add: ws_len_def)
  qed
qed

lemma ws_len_ascii:
  assumes "of_char c < (128 :: int)" and "32 < (of_char c :: int)"
  shows "ws_len (c # s) = 0"
  using assms by (cases s; cases "tl s") (auto simp: ws_len_def is_ws3_def)

lemma ws_len_number_start:
  assumes "c \<in> set ''0123456789+-.I''"
  shows "ws_len (c # s) = 0"
proof -
  have "of_char c < (128 :: int) \<and> 32 < (of_char c :: int)"
    using assms by auto
  then show ?thesis by (simp add: ws_len_ascii)
qed

lemma ws_len_le: "ws_len u \<le> length u"
  by (cases u; cases "tl u"; cases "tl (tl u)") (auto simp: ws_len_def)

lemma trimStart_number_start:
  assumes "c \<in> set ''0123456789+-.I''"
  shows "trimStart (c # s) = c # s"
  using ws_len_number_start [OF assms, of s] by (subst trimStart.simps) simp

lemma trimStart_append:
  assumes "trimStart u \<noteq> []" and "hd (trimStart u) \<in> set ''0123456789+-.I''"
  shows "trimStart (u @ t) = trimStart u @ t"
  using assms
proof (induction u rule: trimStart.induct)
  case (1 s)
  show ?case
  proof (cases "ws_len s = 0")
    case True
    then have ts: "trimStart s = s" by (subst trimStart.simps) simp
    with "1.prems" obtain c r where s: "s = c # r" "c \<in> set ''0123456789+-.I''"
      by (cases s) auto
    have "ws_len (c # (r @ t)) = 0" using s(2) by (rule ws_len_number_start)
    then have "trimStart (s @ t) = s @ t"
      by (subst trimStart.simps) (simp add: s(1))
    then show ?thesis by (simp only: ts)
  next
    case False
    have ts: "trimStart (drop (ws_len s) s) = trimStart s"
      using False by (subst (2) trimStart.simps) simp
    have "trimStart (s @ t) = trimStart (drop (ws_len s) (s @ t))"
      using False ws_len_keeps [OF False, of t] by (subst trimStart.simps) simp
    also have "drop (ws_len s) (s @ t) = drop (ws_len s) s @ t"
      using ws_len_le [of s] by simp
    also have "trimStart (drop (ws_len s) s @ t) = trimStart (drop (ws_len s) s) @ t"
      using False "1.prems" by (intro "1.IH") (simp_all only: ts not_False_eq_True)
    finally show ?thesis by (simp only: ts)
  qed
qed

lemma takeWhile_append_stop:
  assumes "t = [] \<or> \<not> P (hd t)"
  shows "takeWhile P (w @ t) = takeWhile P w"
    and "dropWhile P (w @ t) = dropWhile P w @ t"
  using assms by (induction w) (auto simp: takeWhile_eq_Nil_iff dropWhile_eq_self_iff)

lemma exp_digits_append:
  assumes "t = [] \<or> \<not> is_digit (hd t)"
  shows "exp_digits (x @ t) sg = exp_digits x sg"
  using assms by (simp add: exp_digits_def takeWhile_append_stop(1))

lemma parse_exponent_tail:
  assumes "non_numeric_tail t"
  shows "parse_exponent t = 0"
proof -
  obtain c r where t: "t = c # r" using assms by (cases t) (auto simp: non_numeric_tail_def)
  show ?thesis
  proof (cases r)
    case Nil
    then show ?thesis by (simp add: t parse_exponent_def)
  next
    case (Cons d r')
    then show ?thesis
      using assms
      by (cases r') (auto simp: t parse_exponent_def non_numeric_tail_def starts_exponent_def
          exp_digits_def split: if_splits)
  qed
qed

lemma parse_exponent_append:
  assumes "non_numeric_tail t"
  shows "parse_exponent (x @ t) = parse_exponent x"
proof -
  have nd: "t = [] \<or> \<not> is_digit (hd t)" and ne: "t \<noteq> []" and ns: "hd t \<noteq> CHR ''+''" "hd t \<noteq> CHR ''-''"
    using assms by (auto simp: non_numeric_tail_def)
  show ?thesis
  proof (cases x)
    case Nil
    then show ?thesis using parse_exponent_tail [OF assms] by (simp add: parse_exponent_def)
  next
    case (Cons a r)
    show ?thesis
    proof (cases r)
      case Nil
      have "exp_digits t 1 = 0"
        using exp_digits_append [OF nd, of "[]" 1] by (simp add: exp_digits_def)
      then show ?thesis
        using Cons Nil ne ns by (cases t) (auto simp: parse_exponent_def)
    next
      case (Cons d r')
      then show ?thesis
        using \<open>x = a # r\<close> exp_digits_append [OF nd, of r'] exp_digits_append [OF nd, of "d # r'"]
        by (simp add: parse_exponent_def)
    qed
  qed
qed

lemma parse_unsigned_append:
  assumes "non_numeric_tail t"
  shows "parse_unsigned (w @ t) = parse_unsigned w"
proof -
  have nd: "t = [] \<or> \<not> is_digit (hd t)" and ne: "t \<noteq> []" and np: "hd t \<noteq> CHR ''.''"
    using assms by (auto simp: non_numeric_tail_def)
  define r1 where "r1 = dropWhile is_digit w"
  have tw: "takeWhile is_digit (w @ t) = takeWhile is_digit w"
    and dw: "dropWhile is_digit (w @ t) = r1 @ t"
    using nd by (simp_all add: takeWhile_append_stop r1_def)
  show ?thesis
  proof (cases "r1 = []")
    case True
    then show ?thesis
      using ne np parse_exponent_tail [OF assms]
      by (simp add: parse_unsigned_def tw dw Let_def r1_def [symmetric] parse_exponent_def)
  next
    case False
    then have h: "hd (r1 @ t) = hd r1" "tl (r1 @ t) = tl r1 @ t"
      by simp_all
    show ?thesis
      using False nd parse_exponent_append [OF assms]
      by (simp add: parse_unsigned_def tw dw Let_def r1_def [symmetric] h takeWhile_append_stop)
  qed
qed

lemma parse_unsigned_start:
  assumes "parse_unsigned w = Some x"
  shows "w \<noteq> []" and "hd w \<in> set ''0123456789.''"
proof -
  have "w \<noteq> [] \<and> hd w \<in> set ''0123456789.''"
  proof (cases "takeWhile is_digit w = []")
    case True
    then have "dropWhile is_digit w = w"
      by (metis takeWhile_dropWhile_id append_Nil)
    with True assms show ?thesis
      by (auto simp: parse_unsigned_def Let_def split: if_splits)
  next
    case False
    then obtain c r where w: "w = c # r" by (cases w) auto
    with False have "is_digit c" by (auto split: if_splits)
    then show ?thesis by (auto simp: w is_digit_def)
  qed
  then show "w \<noteq> []" and "hd w \<in> set ''0123456789.''" by simp_all
qed


lemma infinity_start:
  assumes "take 8 w = ''Infinity''"
  shows "8 \<le> length w" and "w \<noteq> []" and "hd w = CHR ''I''"
proof -
  have "length (take 8 w) = 8" using assms by simp
  then show "8 \<le> length w" by simp
  then show "w \<noteq> []" by auto
  then have "hd w = hd (take 8 w)" by (cases w) simp_all
  then show "hd w = CHR ''I''" using assms by simp
qed

lemma parseFloat_of_trim:
  assumes "trimStart s = v"
    and "(if v \<noteq> [] \<and> (hd v = CHR ''+'' \<or> hd v = CHR ''-'') then tl v else v) = w"
  shows "parseFloat s = (if take 8 w = ''Infinity''
      then (if v \<noteq> [] \<and> hd v = CHR ''-'' then NInf else PInf)
      else (case parse_unsigned w of None \<Rightarrow> NaN
            | Some x \<Rightarrow> rnd (if v \<noteq> [] \<and> hd v = CHR ''-'' then - x else x)))"
  unfolding parseFloat_def Let_def assms(1) assms(2) by (rule refl)

lemma parseFloat_tail:
  assumes "\<not> js_isNaN (parseFloat u)" and "non_numeric_tail t"
  shows "parseFloat (u @ t) = parseFloat u"
proof -
  define v where "v = trimStart u"
  define w where "w = (if v \<noteq> [] \<and> (hd v = CHR ''+'' \<or> hd v = CHR ''-'') then tl v else v)"
  note pf = parseFloat_of_trim [OF v_def [symmetric] w_def [symmetric]]
  have ok: "take 8 w = ''Infinity'' \<or> (\<exists>x. parse_unsigned w = Some x)"
    using assms(1) by (auto simp: pf js_isNaN_def split: if_splits option.splits)
  have v: "v \<noteq> []"
  proof
    assume "v = []"
    then have "w = []" by (simp add: w_def)
    then show False using ok by (simp add: parse_unsigned_def)
  qed
  have ws: "w \<noteq> [] \<and> hd w \<in> set ''0123456789.I''"
    using ok infinity_start(2,3) [of w] parse_unsigned_start [of w] by auto
  have hv: "hd v \<in> set ''0123456789+-.I''"
  proof (cases "hd v = CHR ''+'' \<or> hd v = CHR ''-''")
    case True
    then show ?thesis by auto
  next
    case False
    then have "w = v" by (simp add: w_def)
    with ws show ?thesis by auto
  qed
  have ts: "trimStart (u @ t) = v @ t"
    using v hv unfolding v_def by (rule trimStart_append)
  have w': "(if v @ t \<noteq> [] \<and> (hd (v @ t) = CHR ''+'' \<or> hd (v @ t) = CHR ''-'') then tl (v @ t) else v @ t)
      = w @ t"
    using v by (simp add: w_def)
  have neg: "(v @ t \<noteq> [] \<and> hd (v @ t) = CHR ''-'') = (v \<noteq> [] \<and> hd v = CHR ''-'')"
    using v by simp
  have inf: "(take 8 (w @ t) = ''Infinity'') = (take 8 w = ''Infinity'')"
  proof (cases "take 8 w = ''Infinity''")
    case True
    then show ?thesis using infinity_start(1) [OF True] by simp
  next
    case False
    with ok obtain x where "parse_unsigned w = Some x" by blast
    then have "w \<noteq> []" "hd w \<in> set ''0123456789.''"
      by (rule parse_unsigned_start)+
    then have "hd (w @ t) \<noteq> CHR ''I''" by auto
    then have "take 8 (w @ t) \<noteq> ''Infinity''"
      using infinity_start(3) [of "w @ t"] by blast
    with False show ?thesis by simp
  qed
  show ?thesis
    unfolding parseFloat_of_trim [OF ts w'] pf inf neg parse_unsigned_append [OF assms(2)]
    by (rule refl)
qed

lemma takeWhile_all:
  assumes "list_all P xs" and "t = [] \<or> \<not> P (hd t)"
  shows "takeWhile P (xs @ t) = xs" and "dropWhile P (xs @ t) = t"
  using assms by (induction xs) (auto simp: takeWhile_eq_Nil_iff dropWhile_eq_self_iff)

lemma exp_digits_all:
  assumes "list_all is_digit ed" and "ed \<noteq> []"
  shows "exp_digits ed sg = sg * digits_val ed"
proof -
  have tw: "takeWhile is_digit ed = ed"
    using assms(1) by (simp add: list_all_iff)
  show ?thesis unfolding exp_digits_def Let_def tw using assms(2) by simp
qed

lemma parse_exponent_literal:
  assumes "e = CHR ''e'' \<or> e = CHR ''E''" and "sg = [] \<or> sg = ''+'' \<or> sg = ''-''"
    and "ed \<noteq> []" and "list_all is_digit ed"
  shows "parse_exponent (e # sg @ ed) = (if sg = ''-'' then - digits_val ed else digits_val ed)"
proof -
  obtain d r where ed: "ed = d # r" using assms(3) by (cases ed) auto
  then have d: "is_digit d" using assms(4) by simp
  note x = exp_digits_all [OF assms(4,3)]
  from assms(2) show ?thesis
  proof (elim disjE)
    assume "sg = []"
    then show ?thesis
      using assms(1) is_digit_not_symbol(4,5) [OF d] x [of 1]
      by (auto simp: parse_exponent_def ed)
  next
    assume "sg = ''+''"
    then show ?thesis using assms(1) x [of 1] by (auto simp: parse_exponent_def)
  next
    assume "sg = ''-''"
    then show ?thesis using assms(1) x [of "- 1"] by (auto simp: parse_exponent_def)
  qed
qed


lemma parse_unsigned_parts:
  assumes "list_all is_digit ip" and "E = [] \<or> hd E = CHR ''e'' \<or> hd E = CHR ''E''"
  shows "ip \<noteq> [] \<Longrightarrow> parse_unsigned (ip @ E)
           = Some (of_int (digits_val ip) * 10 powi parse_exponent E)"
    and "list_all is_digit fp \<Longrightarrow> ip \<noteq> [] \<or> fp \<noteq> [] \<Longrightarrow>
         parse_unsigned (ip @ CHR ''.'' # fp @ E)
           = Some ((of_int (digits_val ip) + of_int (digits_val fp) / 10 ^ length fp)
                     * 10 powi parse_exponent E)"
proof -
  have e: "E = [] \<or> \<not> is_digit (hd E)"
    using assms(2) by (auto simp: is_digit_def)
  have d: "E = [] \<or> hd E \<noteq> CHR ''.''"
    using assms(2) by auto
  note i = takeWhile_all [OF assms(1) e]
  show "parse_unsigned (ip @ E) = Some (of_int (digits_val ip) * 10 powi parse_exponent E)"
    if "ip \<noteq> []"
    unfolding parse_unsigned_def Let_def i using that d by auto
  show "parse_unsigned (ip @ CHR ''.'' # fp @ E)
      = Some ((of_int (digits_val ip) + of_int (digits_val fp) / 10 ^ length fp)
                * 10 powi parse_exponent E)"
    if f: "list_all is_digit fp" and n: "ip \<noteq> [] \<or> fp \<noteq> []"
  proof -
    have "CHR ''.'' # fp @ E = [] \<or> \<not> is_digit (hd (CHR ''.'' # fp @ E))"
      by (simp add: is_digit_def)
    note j = takeWhile_all [OF assms(1) this]
    note k = takeWhile_all [OF f e]
    have t: "tl (CHR ''.'' # fp @ E) = fp @ E" by simp
    have h: "CHR ''.'' # fp @ E \<noteq> [] \<and> hd (CHR ''.'' # fp @ E) = CHR ''.''" by simp
    show ?thesis
      unfolding parse_unsigned_def Let_def j t k using n h by auto
  qed
qed

text \<open>The text of a literal after its sign, and the magnitude that it denotes.\<close>

lemma parse_unsigned_literal:
  assumes "literal_ok l"
  shows "parse_unsigned
           (int_digits l
            @ (case frac_digits l of None \<Rightarrow> [] | Some fp \<Rightarrow> CHR ''.'' # fp)
            @ (case exp_part l of None \<Rightarrow> [] | Some (e, sg, ed) \<Rightarrow> e # sg @ ed))
         = Some ((of_int (digits_val (int_digits l))
                  + (case frac_digits l of None \<Rightarrow> 0
                     | Some fp \<Rightarrow> of_int (digits_val fp) / 10 ^ length fp))
                 * 10 powi (case exp_part l of
                              None \<Rightarrow> 0
                            | Some (e, sg, ed) \<Rightarrow>
                                if sg = ''-'' then - digits_val ed else digits_val ed))"
proof -
  define E where "E = (case exp_part l of None \<Rightarrow> [] | Some (e, sg, ed) \<Rightarrow> e # sg @ ed)"
  define x where "x = (case exp_part l of None \<Rightarrow> 0
      | Some (e, sg, ed) \<Rightarrow> if sg = ''-'' then - digits_val ed else digits_val ed)"
  have i: "list_all is_digit (int_digits l)"
    using assms by (simp add: literal_ok_def)
  have E: "E = [] \<or> hd E = CHR ''e'' \<or> hd E = CHR ''E''"
    using assms by (auto simp: literal_ok_def E_def split: option.splits)
  have x: "parse_exponent E = x"
  proof (cases "exp_part l")
    case None
    then show ?thesis by (simp add: E_def x_def parse_exponent_def)
  next
    case (Some p)
    obtain e sg ed where p: "p = (e, sg, ed)" by (cases p)
    have "(e = CHR ''e'' \<or> e = CHR ''E'') \<and> (sg = [] \<or> sg = ''+'' \<or> sg = ''-'')
        \<and> ed \<noteq> [] \<and> list_all is_digit ed"
      using assms by (simp add: literal_ok_def Some p)
    then have "parse_exponent (e # sg @ ed) = (if sg = ''-'' then - digits_val ed else digits_val ed)"
      by (intro parse_exponent_literal) simp_all
    then show ?thesis by (simp add: E_def x_def Some p)
  qed
  show ?thesis
  proof (cases "frac_digits l")
    case None
    then have "int_digits l \<noteq> []"
      using assms by (simp add: literal_ok_def)
    from parse_unsigned_parts(1) [OF i E this] show ?thesis
      by (simp add: None x E_def [symmetric] x_def [symmetric])
  next
    case (Some fp)
    then have "list_all is_digit fp" and "int_digits l \<noteq> [] \<or> fp \<noteq> []"
      using assms by (simp_all add: literal_ok_def)
    from parse_unsigned_parts(2) [OF i E this] show ?thesis
      by (simp add: Some x E_def [symmetric] x_def [symmetric])
  qed
qed

lemma parseFloat_literal:
  assumes "literal_ok l"
  shows "parseFloat (literal_text l) = rnd (literal_value l)"
proof -
  define b where "b = int_digits l
      @ (case frac_digits l of None \<Rightarrow> [] | Some fp \<Rightarrow> CHR ''.'' # fp)
      @ (case exp_part l of None \<Rightarrow> [] | Some (e, sg, ed) \<Rightarrow> e # sg @ ed)"
  define a :: rat where "a = (of_int (digits_val (int_digits l))
       + (case frac_digits l of None \<Rightarrow> 0
          | Some fp \<Rightarrow> of_int (digits_val fp) / 10 ^ length fp))
      * 10 powi (case exp_part l of
                   None \<Rightarrow> 0
                 | Some (e, sg, ed) \<Rightarrow> if sg = ''-'' then - digits_val ed else digits_val ed)"
  have pu: "parse_unsigned b = Some a"
    unfolding a_def b_def using assms by (rule parse_unsigned_literal)
  have b: "b \<noteq> []" and hb: "hd b \<in> set ''0123456789.''"
    using pu by (rule parse_unsigned_start)+
  obtain c r where br: "b = c # r" using b by (cases b) auto
  have c: "c \<in> set ''0123456789.''" using hb by (simp add: br)
  then have "c \<in> set ''0123456789+-.I''" by auto
  then have tb: "trimStart b = b" unfolding br by (rule trimStart_number_start)
  have inf: "take 8 b \<noteq> ''Infinity''"
    using infinity_start(3) [of b] c by (auto simp: br)
  have ltx: "literal_text l = sign_text l @ b"
    by (simp add: literal_text_def b_def)
  have val: "literal_value l = (if sign_text l = ''-'' then - 1 else 1) * a"
    by (simp add: literal_value_def a_def)
  have sg: "sign_text l = [] \<or> sign_text l = ''+'' \<or> sign_text l = ''-''"
    using assms by (simp add: literal_ok_def)
  then show ?thesis
  proof (elim disjE)
    assume s: "sign_text l = []"
    have t: "trimStart (literal_text l) = b"
      unfolding ltx s using tb by simp
    have w: "(if b \<noteq> [] \<and> (hd b = CHR ''+'' \<or> hd b = CHR ''-'') then tl b else b) = b"
      using c by (auto simp: br)
    have n: "(b \<noteq> [] \<and> hd b = CHR ''-'') = False"
      using c by (auto simp: br)
    show ?thesis
      unfolding parseFloat_of_trim [OF t w] val n using inf by (simp add: pu s)
  next
    assume s: "sign_text l = ''+''"
    have t: "trimStart (literal_text l) = CHR ''+'' # b"
      unfolding ltx s by (simp add: trimStart_number_start)
    have w: "(if CHR ''+'' # b \<noteq> [] \<and> (hd (CHR ''+'' # b) = CHR ''+'' \<or> hd (CHR ''+'' # b) = CHR ''-'')
        then tl (CHR ''+'' # b) else CHR ''+'' # b) = b"
      by simp
    show ?thesis
      unfolding parseFloat_of_trim [OF t w] val using inf by (simp add: pu s)
  next
    assume s: "sign_text l = ''-''"
    have t: "trimStart (literal_text l) = CHR ''-'' # b"
      unfolding ltx s by (simp add: trimStart_number_start)
    have w: "(if CHR ''-'' # b \<noteq> [] \<and> (hd (CHR ''-'' # b) = CHR ''+'' \<or> hd (CHR ''-'' # b) = CHR ''-'')
        then tl (CHR ''-'' # b) else CHR ''-'' # b) = b"
      by simp
    show ?thesis
      unfolding parseFloat_of_trim [OF t w] val using inf by (simp add: pu s)
  qed
qed

lemma rnd_not_NaN: "\<not> js_isNaN (rnd q)"
  by (simp add: rnd_def Let_def js_isNaN_def)

lemma parseFloat_literal_tail:
  assumes "literal_ok l" and "t = [] \<or> non_numeric_tail t"
  shows "parseFloat (literal_text l @ t) = rnd (literal_value l)"
proof (cases "t = []")
  case True
  then show ?thesis using parseFloat_literal [OF assms(1)] by simp
next
  case False
  then have t: "non_numeric_tail t" using assms(2) by simp
  have "\<not> js_isNaN (parseFloat (literal_text l))"
    by (simp add: parseFloat_literal [OF assms(1)] rnd_not_NaN)
  from parseFloat_tail [OF this t] show ?thesis
    by (simp add: parseFloat_literal [OF assms(1)])
qed

lemma rnd_not_negative:
  assumes "0 \<le> q"
  shows "\<not> js_lt (rnd q) (Fin 0)"
proof -
  have "rnd q = PInf \<or> (\<exists>r. rnd q = Fin r \<and> 0 \<le> r)"
    using rnd_nonneg [OF assms] rnd_val_nonneg [OF assms] by auto
  then show ?thesis by auto
qed


lemma credit_invalid_iff:
  "fst (creditAccount ntos s dm) = Logged ''Invalid amount. Please enter a positive number.''
     \<longleftrightarrow> js_isNaN (parseFloat s) \<or> js_lt (parseFloat s) (Fin 0)"
  by (simp add: creditAccount_def Let_def split: sum.split)

lemma debit_invalid_iff:
  "fst (debitAccount ntos s dm) = Logged ''Invalid amount. Please enter a positive number.''
     \<longleftrightarrow> js_isNaN (parseFloat s) \<or> js_lt (parseFloat s) (Fin 0)"
  by (simp add: debitAccount_def Let_def split: sum.split)

text \<open>
  Claim C10. The parse accepts every input that begins with a decimal literal and ignores
  the non-numeric characters after it. For every decimal literal and every tail of
  non-numeric characters, the parse of the literal followed by the tail is the value of
  the literal, rounded to binary64; when that value is not negative, neither the credit
  nor the debit answers with the message of an invalid amount. More generally, a tail
  of non-numeric characters after any string whose parse is a number leaves the parse
  as it is. The input \<^verbatim>\<open>100abc\<close> is the amount 100, and a credit with it on a fresh ledger
  is done. The validation of credit and debit rejects an input exactly when its parse is
  \<open>NaN\<close> or negative.
\<close>

theorem trailing_characters_ignored:
  "(literal_ok l \<and> (t = [] \<or> non_numeric_tail t) \<longrightarrow>
      parseFloat (literal_text l @ t) = rnd (literal_value l)
      \<and> (0 \<le> literal_value l \<longrightarrow>
           fst (creditAccount ntos (literal_text l @ t) dm)
             \<noteq> Logged ''Invalid amount. Please enter a positive number.''
           \<and> fst (debitAccount ntos (literal_text l @ t) dm)
             \<noteq> Logged ''Invalid amount. Please enter a positive number.''))
   \<and> (\<not> js_isNaN (parseFloat u) \<and> non_numeric_tail v \<longrightarrow> parseFloat (u @ v) = parseFloat u)
   \<and> parseFloat ''100abc'' = Fin 100
   \<and> creditAccount ntos ''100abc'' new_DataManager
       = (Logged ''Amount credited. New balance: 001100.00'', \<lparr>storageBalance = Fin 1100\<rparr>)
   \<and> (fst (creditAccount ntos s dm) = Logged ''Invalid amount. Please enter a positive number.''
        \<longleftrightarrow> js_isNaN (parseFloat s) \<or> js_lt (parseFloat s) (Fin 0))
   \<and> (fst (debitAccount ntos s dm) = Logged ''Invalid amount. Please enter a positive number.''
        \<longleftrightarrow> js_isNaN (parseFloat s) \<or> js_lt (parseFloat s) (Fin 0))"
proof -
  have lit: "parseFloat (literal_text l @ t) = rnd (literal_value l)
      \<and> (0 \<le> literal_value l \<longrightarrow>
           fst (creditAccount ntos (literal_text l @ t) dm)
             \<noteq> Logged ''Invalid amount. Please enter a positive number.''
           \<and> fst (debitAccount ntos (literal_text l @ t) dm)
             \<noteq> Logged ''Invalid amount. Please enter a positive number.'')"
    if "literal_ok l" and "t = [] \<or> non_numeric_tail t"
  proof -
    note p = parseFloat_literal_tail [OF that]
    have "\<not> (js_isNaN (parseFloat (literal_text l @ t))
        \<or> js_lt (parseFloat (literal_text l @ t)) (Fin 0))"
      if "0 \<le> literal_value l"
      unfolding p using rnd_not_NaN [of "literal_value l"] rnd_not_negative [OF that] by blast
    then show ?thesis
      using p credit_invalid_iff [of ntos "literal_text l @ t" dm]
        debit_invalid_iff [of ntos "literal_text l @ t" dm]
      by blast
  qed
  have tail: "parseFloat (u @ v) = parseFloat u"
    if "\<not> js_isNaN (parseFloat u)" and "non_numeric_tail v"
    using that by (rule parseFloat_tail)
  have "parseFloat ''100abc'' = Fin 100"
    by code_simp
  moreover have "creditAccount ntos ''100abc'' new_DataManager
      = (Logged ''Amount credited. New balance: 001100.00'', \<lparr>storageBalance = Fin 1100\<rparr>)"
    by code_simp
  ultimately show ?thesis
    using lit tail credit_invalid_iff [of ntos s dm] debit_invalid_iff [of ntos s dm]
    by blast
qed

theorem trailing_characters_ignored_witness:
  "literal_ok \<lparr>sign_text = [], int_digits = ''12'', frac_digits = Some ''5'',
                exp_part = Some (CHR ''e'', ''+'', ''1'')\<rparr>
   \<and> non_numeric_tail '' dollars''
   \<and> parseFloat ''12.5e+1 dollars'' = Fin 125
   \<and> fst (creditAccount no_toString ''12.5e+1 dollars'' new_DataManager)
       \<noteq> Logged ''Invalid amount. Please enter a positive number.''
   \<and> \<not> js_isNaN (parseFloat ''100'')
   \<and> non_numeric_tail ''yen''
   \<and> parseFloat ''100yen'' = parseFloat ''100''
   \<and> \<not> (js_isNaN (parseFloat ''100 '') \<or> js_lt (parseFloat ''100 '') (Fin 0))"
proof -
  define l where "l = \<lparr>sign_text = [], int_digits = ''12'', frac_digits = Some ''5'',
      exp_part = Some (CHR ''e'', ''+'', ''1'')\<rparr>"
  have ok: "literal_ok l"
    unfolding l_def by code_simp
  have t: "non_numeric_tail '' dollars''"
    by code_simp
  have v: "non_numeric_tail ''yen''"
    by code_simp
  have x: "literal_text l @ '' dollars'' = ''12.5e+1 dollars''"
    unfolding l_def by code_simp
  have r: "rnd (literal_value l) = Fin 125"
    unfolding l_def by code_simp
  have p: "0 \<le> literal_value l"
    unfolding l_def by code_simp
  have u: "\<not> js_isNaN (parseFloat ''100'')"
    by code_simp
  have a: "''100'' @ ''yen'' = ''100yen''"
    by simp
  have c: "fst (creditAccount no_toString ''100 '' new_DataManager)
      \<noteq> Logged ''Invalid amount. Please enter a positive number.''"
    by code_simp
  from trailing_characters_ignored
    [of l "'' dollars''" no_toString new_DataManager "''100''" "''yen''" "''100 ''"]
  show ?thesis
    unfolding x r a l_def [symmetric] using ok t v p u c by blast
qed

section \<open>The rounding of \<^verbatim>\<open>DataManager.write\<close>\<close>

text \<open>\<^verbatim>\<open>toFixed(2)\<close> depends on the nearest number of hundredths only.\<close>

lemma toFixed2_same_hundredths:
  assumes "0 \<le> a" and "a < 10 ^ 21" and "0 \<le> b" and "b < 10 ^ 21"
    and "\<lfloor>a * 100 + 1 / 2\<rfloor> = \<lfloor>b * 100 + 1 / 2\<rfloor>"
  shows "toFixed2 ntos (Fin a) = toFixed2 ntos (Fin b)"
  using assms by (simp add: toFixed2_def Let_def not_le [symmetric])

text \<open>
  A product \<open>balance * 100\<close> in the range is below \<open>2\<^sup>2\<^sup>7\<close>, and its rounding to binary64
  moves it by \<open>2\<^sup>-\<^sup>2\<^sup>7\<close> at most.
\<close>

lemma rnd_val_near:
  assumes "0 \<le> q" and "q < 2 ^ 27"
  shows "\<bar>rnd_val q - q\<bar> \<le> 1 / 2 ^ 27"
proof (cases "q = 0")
  case True
  then show ?thesis by simp
next
  case False
  then have q: "0 < q" using assms(1) by simp
  have "(2::rat) powi binade q \<le> \<bar>q\<bar>" using False by (rule binade_bounds(1))
  also have "\<dots> < 2 powi 27" using assms by simp
  finally have "binade q < 27" by (simp only: powi2_less_iff)
  then have "max (binade q) (- 1022) - 52 \<le> - 26" by simp
  then have "ulp q \<le> 2 powi (- 26)"
    unfolding ulp_def by (simp only: powi2_le_iff)
  then have "ulp q / 2 \<le> 1 / 2 ^ 27" by simp
  with rnd_val_error [of q] show ?thesis by linarith
qed

text \<open>
  Away from the ties the write and the format agree with \<^verbatim>\<open>toFixed(2)\<close> of the value
  written: for every value of the range that is within 0.49 hundredths of a whole number
  of hundredths, so at least 0.0001 from every half hundredth, the write is done and
  the formatted balance is the value to two decimals, padded.
\<close>

lemma round_trip_off_ties:
  assumes "0 \<le> r" and "\<not> js_gt (Fin r) lit_max" and "\<bar>r * 100 - of_int n\<bar> \<le> 49 / 100"
  shows "\<exists>dm'. write_balance (Num (Fin r)) dm = Inr dm'
           \<and> getFormattedBalance ntos dm' = padStart 9 CHR ''0'' (toFixed2 ntos (Fin r))"
proof -
  have rm: "r \<le> 4294967253050327 / 4294967296"
    using assms(2) by (simp add: js_gt_def lit_max_val)
  have q0: "0 \<le> r * 100" using assms(1) by simp
  have q1: "r * 100 < 2 ^ 27" using rm by simp
  have "\<bar>rnd_val (r * 100) - r * 100\<bar> \<le> 1 / 2 ^ 27"
    using q0 q1 by (rule rnd_val_near)
  moreover have "(1::rat) / 2 ^ 27 < 1 / 100" by simp
  ultimately have "\<bar>rnd_val (r * 100) - of_int n\<bar> < 1 / 2"
    using assms(3) by linarith
  then have n: "\<lfloor>rnd_val (r * 100) + 1 / 2\<rfloor> = n"
    by (rule floor_near_int)
  have w: "write_balance (Num (Fin r)) dm = Inr (dm\<lparr>storageBalance := Fin (cents n)\<rparr>)"
    and nb: "0 \<le> n" "n \<le> 99999999"
    using write_in_range(1) [OF assms(1,2), of dm] write_in_range(2,3) [OF assms(1,2)]
    by (simp_all only: n)
  have "\<bar>r * 100 - of_int n\<bar> < 1 / 2" using assms(3) by linarith
  then have "\<lfloor>r * 100 + 1 / 2\<rfloor> = n" by (rule floor_near_int)
  then have "\<lfloor>cents n * 100 + 1 / 2\<rfloor> = \<lfloor>r * 100 + 1 / 2\<rfloor>"
    using cents_floor [OF nb] by simp
  moreover have "0 \<le> cents n" "cents n < 10 ^ 21"
    using cents_rnd(2,3) [OF nb] by simp_all
  moreover have "r < 10 ^ 21" using rm by simp
  ultimately have "toFixed2 ntos (Fin (cents n)) = toFixed2 ntos (Fin r)"
    using assms(1) by (intro toFixed2_same_hundredths)
  then show ?thesis
    by (simp add: w getFormattedBalance_def del: write_balance.simps)
qed

text \<open>
  Claim C7. Writing a valid amount and reading the formatted balance is to give the
  amount to two decimal places, the write having rounded it to the nearest hundredth,
  ties away from zero or to even, the same way every time.
  \<^verbatim>\<open>write\<close> rounds with \<^verbatim>\<open>Math.round(balance * 100) / 100\<close>, and the product is rounded to
  binary64 before \<^verbatim>\<open>Math.round\<close> sees it. The binary64 value written \<^verbatim>\<open>0.015\<close> is in the
  range and below 0.015, so that its nearest hundredth is 0.01, which is also what
  \<^verbatim>\<open>toFixed(2)\<close> gives for it; its product with 100 is rounded to 1.5, and \<^verbatim>\<open>write\<close> stores
  0.02, formatted \<^verbatim>\<open>000000.02\<close>. Read as decimal numbers the results are not one rule
  either: \<^verbatim>\<open>0.015\<close> is stored as 0.02 and \<^verbatim>\<open>1.015\<close> as 1.01. The operations reach such a
  write: on a fresh ledger the credit of \<^verbatim>\<open>0.005\<close> prints the new balance \<^verbatim>\<open>001000.00\<close> and
  stores 1000.01.
\<close>

theorem write_rounding_misses_nearest_cent:
  "parseFloat ''0.015'' = Fin (1080863910568919 / 72057594037927936)
   \<and> in_bounds (Fin (1080863910568919 / 72057594037927936))
   \<and> write_balance (Num (Fin (1080863910568919 / 72057594037927936))) new_DataManager
       = Inr \<lparr>storageBalance = Fin (5764607523034235 / 288230376151711744)\<rparr>
   \<and> getFormattedBalance no_toString \<lparr>storageBalance = Fin (5764607523034235 / 288230376151711744)\<rparr>
       = ''000000.02''
   \<and> padStart 9 CHR ''0'' (toFixed2 no_toString (Fin (1080863910568919 / 72057594037927936)))
       = ''000000.01''
   \<and> \<bar>1080863910568919 / 72057594037927936 - 1 / 100\<bar>
       < \<bar>1080863910568919 / 72057594037927936 - 2 / 100 :: rat\<bar>
   \<and> parseFloat ''1.015'' = Fin (4571153621781053 / 4503599627370496)
   \<and> write_balance (Num (Fin (4571153621781053 / 4503599627370496))) new_DataManager
       = Inr \<lparr>storageBalance = Fin (4548635623644201 / 4503599627370496)\<rparr>
   \<and> getFormattedBalance no_toString \<lparr>storageBalance = Fin (4548635623644201 / 4503599627370496)\<rparr>
       = ''000001.01''
   \<and> creditAccount no_toString ''0.005'' new_DataManager
       = (Logged ''Amount credited. New balance: 001000.00'',
          \<lparr>storageBalance = Fin (4398090491569111 / 4398046511104)\<rparr>)
   \<and> getFormattedBalance no_toString \<lparr>storageBalance = Fin (4398090491569111 / 4398046511104)\<rparr>
       = ''001000.01''"
proof -
  have "parseFloat ''0.015'' = Fin (1080863910568919 / 72057594037927936)"
    by code_simp
  moreover have "write_balance (Num (Fin (1080863910568919 / 72057594037927936))) new_DataManager
      = Inr \<lparr>storageBalance = Fin (5764607523034235 / 288230376151711744)\<rparr>"
    by code_simp
  moreover have "getFormattedBalance no_toString
      \<lparr>storageBalance = Fin (5764607523034235 / 288230376151711744)\<rparr> = ''000000.02''"
    by code_simp
  moreover have "padStart 9 CHR ''0'' (toFixed2 no_toString (Fin (1080863910568919 / 72057594037927936)))
      = ''000000.01''"
    by code_simp
  moreover have "parseFloat ''1.015'' = Fin (4571153621781053 / 4503599627370496)"
    by code_simp
  moreover have "write_balance (Num (Fin (4571153621781053 / 4503599627370496))) new_DataManager
      = Inr \<lparr>storageBalance = Fin (4548635623644201 / 4503599627370496)\<rparr>"
    by code_simp
  moreover have "getFormattedBalance no_toString
      \<lparr>storageBalance = Fin (4548635623644201 / 4503599627370496)\<rparr> = ''000001.01''"
    by code_simp
  moreover have "creditAccount no_toString ''0.005'' new_DataManager
      = (Logged ''Amount credited. New balance: 001000.00'',
         \<lparr>storageBalance = Fin (4398090491569111 / 4398046511104)\<rparr>)"
    by code_simp
  moreover have "getFormattedBalance no_toString
      \<lparr>storageBalance = Fin (4398090491569111 / 4398046511104)\<rparr> = ''001000.01''"
    by code_simp
  ultimately show ?thesis
    by (simp add: in_bounds_def)
qed

section \<open>The run loop\<close>

lemma credit_throws:
  assumes "\<not> js_isNaN (parseFloat a)" and "\<not> js_lt (parseFloat a) (Fin 0)"
    and "js_gt (js_add (read dm) (parseFloat a)) lit_max"
  shows "creditAccount ntos a dm = (Threw ''Invalid balance value'', dm)"
  using assms by (simp add: creditAccount_def Let_def)

lemma credit_logs:
  assumes "two_decimals (read dm)"
    and "\<not> (\<not> js_isNaN (parseFloat a) \<and> \<not> js_lt (parseFloat a) (Fin 0)
          \<and> js_gt (js_add (read dm) (parseFloat a)) lit_max)"
  shows "\<exists>l dm'. creditAccount ntos a dm = (Logged l, dm') \<and> two_decimals (read dm')"
proof (cases "js_isNaN (parseFloat a) \<or> js_lt (parseFloat a) (Fin 0)")
  case True
  then have "creditAccount ntos a dm = (Logged ''Invalid amount. Please enter a positive number.'', dm)"
    by (simp add: creditAccount_def)
  with assms(1) show ?thesis by blast
next
  case False
  with assms(2) have "\<not> js_gt (js_add (read dm) (parseFloat a)) lit_max" by blast
  with credit_outcome [OF assms(1), of ntos a] assms(1) show ?thesis by auto
qed

lemma debit_logs:
  assumes "two_decimals (read dm)"
  shows "\<exists>l dm'. debitAccount ntos a dm = (Logged l, dm') \<and> two_decimals (read dm')"
  using debit_outcome [OF assms, of ntos a] assms by auto

text \<open>
  Claim C6. No error is to end the run loop: each operation is to return to the menu,
  also a credit whose sum is above 999999.99, with the failure of the write reported.
  \<^verbatim>\<open>run\<close>, \<^verbatim>\<open>creditAccount\<close> and \<^verbatim>\<open>debitAccount\<close> catch no exception. On a fresh ledger the
  choice 2 with the amount \<^verbatim>\<open>999999.99\<close> makes \<^verbatim>\<open>write\<close> throw, and the error leaves \<^verbatim>\<open>run\<close>:
  the loop is over after the first menu, nothing is logged for the failure, and the
  choices 1 and 4 that follow are not read.
\<close>

theorem run_stops_counterexample:
  "run no_toString [''2'', ''999999.99'', ''1'', ''4''] new_DataManager []
     = (Uncaught ''Invalid balance value'', displayMenu, new_DataManager)"
  by code_simp

text \<open>
  The other paths of the loop. On a stored balance of two decimals in \<open>[0, 999999.99]\<close>,
  the view of the balance, a debit with any input, a choice that is not one of the menu,
  and a credit with any input whose sum is not above the maximum all log one line and
  go on with the next choice; the rejected amount, the insufficient funds and the
  invalid choice are among them.
\<close>

lemma run_returns_to_menu:
  assumes "two_decimals (read dm)"
  shows "run ntos (''1'' # ins) dm out
       = run ntos ins dm (out @ displayMenu @ [''Current balance: '' @ getFormattedBalance ntos dm])"
    and "\<exists>l dm'. two_decimals (read dm')
           \<and> run ntos (''3'' # a # ins) dm out = run ntos ins dm' (out @ displayMenu @ [l])"
    and "\<not> (\<not> js_isNaN (parseFloat a) \<and> \<not> js_lt (parseFloat a) (Fin 0)
               \<and> js_gt (js_add (read dm) (parseFloat a)) lit_max)
          \<Longrightarrow> \<exists>l dm'. two_decimals (read dm')
                \<and> run ntos (''2'' # a # ins) dm out = run ntos ins dm' (out @ displayMenu @ [l])"
    and "c \<notin> {''1'', ''2'', ''3'', ''4''} \<Longrightarrow>
           run ntos (c # ins) dm out
             = run ntos ins dm (out @ displayMenu @ [''Invalid choice, please select 1-4.''])"
proof -
  show "run ntos (''1'' # ins) dm out
      = run ntos ins dm (out @ displayMenu @ [''Current balance: '' @ getFormattedBalance ntos dm])"
    by (simp add: viewBalance_def getFormattedBalance_def read_def)
  obtain l dm' where d: "debitAccount ntos a dm = (Logged l, dm')" "two_decimals (read dm')"
    using debit_logs [OF assms] by blast
  then have "run ntos (''3'' # a # ins) dm out = run ntos ins dm' (out @ displayMenu @ [l])"
    by simp
  with d(2) show "\<exists>l dm'. two_decimals (read dm')
      \<and> run ntos (''3'' # a # ins) dm out = run ntos ins dm' (out @ displayMenu @ [l])"
    by blast
  show "\<exists>l dm'. two_decimals (read dm')
      \<and> run ntos (''2'' # a # ins) dm out = run ntos ins dm' (out @ displayMenu @ [l])"
    if n: "\<not> (\<not> js_isNaN (parseFloat a) \<and> \<not> js_lt (parseFloat a) (Fin 0)
      \<and> js_gt (js_add (read dm) (parseFloat a)) lit_max)"
  proof -
    obtain l dm' where cr: "creditAccount ntos a dm = (Logged l, dm')" "two_decimals (read dm')"
      using credit_logs [OF assms n] by blast
    from cr(1) have "run ntos (''2'' # a # ins) dm out = run ntos ins dm' (out @ displayMenu @ [l])"
      by simp
    with cr(2) show ?thesis by blast
  qed
  show "run ntos (c # ins) dm out
      = run ntos ins dm (out @ displayMenu @ [''Invalid choice, please select 1-4.''])"
    if "c \<notin> {''1'', ''2'', ''3'', ''4''}"
    using that by simp
qed

text \<open>
  The error of the write, for every input: whatever the choices that follow, a credit
  with a valid amount whose sum is above the maximum leaves the loop with the error, and
  none of them is read.
\<close>

lemma run_ends_on_write_error:
  assumes "\<not> js_isNaN (parseFloat a)" and "\<not> js_lt (parseFloat a) (Fin 0)"
    and "js_gt (js_add (read dm) (parseFloat a)) lit_max"
  shows "run ntos (''2'' # a # ins) dm out = (Uncaught ''Invalid balance value'', out @ displayMenu, dm)"
  using credit_throws [OF assms, of ntos] by simp

end
